theory Spec2Isabelle
  imports Main "HOL-Library.Multiset"
begin

unbundle bit_operations_syntax

section \<open>Python values used by process\_management.py\<close>

text \<open>
  Python integers are unbounded, so they are \<open>int\<close>. \<open>range(n)\<close> is the list
  \<open>0, 1, ..., n - 1\<close>, empty when \<open>n \<le> 0\<close>.
\<close>

definition py_range :: "int \<Rightarrow> int list" where
  "py_range n = [0..n - 1]"

subsection \<open>The busy work of a task 5 child\<close>

text \<open>
  \<^verbatim>\<open>
      s = 0
      for k in range(iterations):
          s += (k & 1)
  \<close>
\<close>

definition busy_work :: "int \<Rightarrow> int" where
  "busy_work iterations = fold (\<lambda>k s. s + (k AND 1)) (py_range iterations) 0"

section \<open>Exceptions, outcomes and printed lines\<close>

text \<open>
  The exceptions the program meets. \<open>OtherError\<close> stands for any exception the
  source has no name for (a permission problem, an I/O error).
\<close>

datatype error =
    ChildProcessError
  | FileNotFoundError
  | IndexError
  | ValueError string
  | OtherError string

text \<open>
  How a run of a function, or of a whole process, ends: it returns to its caller, it
  leaves through \<open>sys.exit\<close> or \<open>os._exit\<close> with a code, an exception nobody
  catches unwinds it, a signal kills it, or it never ends (it blocks for ever in a
  system call, or the program it became runs for ever).
\<close>

datatype outcome = Returned | Exited int | Uncaught error | Killed int | Hung

text \<open>
  The exit code of a process. An interpreter that ends on an uncaught exception prints
  the traceback and exits with code 1; a process that a signal kills, or that never
  ends, has none.
\<close>

fun exit_code :: "outcome \<Rightarrow> int option" where
  "exit_code Returned = Some 0"
| "exit_code (Exited c) = Some c"
| "exit_code (Uncaught e) = Some 1"
| "exit_code (Killed sig) = None"
| "exit_code Hung = None"

text \<open>
  A printed line is kept as the pieces of its f-string: literal text, a formatted
  integer, the \<open>repr\<close> of a list of strings or of integers, a formatted exception
  and a formatted pair. Nothing in the program reads its own output back, so the
  rendering of the pieces to characters is left out.
\<close>

datatype piece =
    S string
  | I int
  | SL "string list"
  | IL "int list"
  | E error
  | PR int int

type_synonym line = "piece list"

abbreviation nl :: char where
  "nl \<equiv> CHR 0x0A"

abbreviation sq :: char where
  "sq \<equiv> CHR 0x27"

section \<open>The operating system, as the parent process sees it\<close>

text \<open>
  A child process is a copy of the program that runs the child branch of the source and
  then ends. Seen from the parent it is its PID, what it printed, how it ended and the
  niceness increment it asked for with \<open>os.nice\<close> (if any).
\<close>

record child =
  cpid :: int
  cout :: "line list"
  cend :: outcome
  cnice :: "int option"

text \<open>
  \<open>os.wait()\<close> returns \<open>(pid, status)\<close>. The status of a child that called
  \<open>exit(c)\<close> holds the low eight bits of \<open>c\<close> in its high byte (an interpreter
  that ends normally exits with 0, one that ends on an uncaught exception with 1); the
  status of a child that a signal killed is the number of the signal, in its low seven
  bits. A child that never ends is never delivered.
\<close>

definition wait_status :: "child \<Rightarrow> int" where
  "wait_status c =
     (case cend c of
        Returned \<Rightarrow> 0
      | Exited k \<Rightarrow> (k mod 256) * 256
      | Uncaught e \<Rightarrow> 256
      | Killed sig \<Rightarrow> sig mod 128
      | Hung \<Rightarrow> 0)"

definition terminates :: "child \<Rightarrow> bool" where
  "terminates c = (cend c \<noteq> Hung)"

text \<open>What \<open>os.execvp\<close> does in a child: the image is replaced by a program that prints
  and ends in some way, or the call raises.\<close>

datatype exec_result = Replaced "line list" outcome | ExecRaises error

text \<open>One entry of the introspection file system, \<open>/proc/<pid>\<close>: the lines the
  status file yields and the exception (if any) that ends the reading, the target of the
  \<open>exe\<close> link, and the listing of \<open>fd\<close> with the target of every entry; each of the
  three can raise on its own.\<close>

record proc_entry =
  status_lines :: "string list"
  status_err :: "error option"
  exe_link :: "error + string"
  fd_dir :: "error + (string \<times> (error + string)) list"

text \<open>
  The world of the parent process. \<open>children\<close> is the kernel's table of the children
  that have not been reaped; \<open>sched\<close> is the order in which the kernel delivers
  terminated children (any order is possible); \<open>sigchld_ign\<close> says that the process
  was started with \<open>SIGCHLD\<close> ignored, in which case the kernel reaps children by
  itself. \<open>forked\<close> and \<open>reaped\<close> are the history of the \<open>fork\<close> and \<open>wait\<close>
  calls of this run; the program never reads them. The remaining fields are what the
  environment answers: the platform name, the PIDs, the \<open>/proc\<close> tree, the result of
  \<open>execvp\<close> and of \<open>subprocess.run\<close> for a command, and the listing \<open>ps -el\<close>
  prints.

  Every \<open>fork\<close> is granted and every \<open>print\<close> succeeds: the source handles
  neither failure and the specification is silent about both.
\<close>

record world =
  platform_system :: string
  pid_self :: int
  pid_init :: int
  adopted_early :: bool
  last_pid :: nat
  children :: "child list"
  sigchld_ign :: bool
  sched :: "nat list"
  stdout :: "line list"
  forked :: "child list"
  reaped :: "(int \<times> int) list"
  procfs :: "int \<Rightarrow> proc_entry option"
  execvp_env :: "string \<Rightarrow> string list \<Rightarrow> exec_result"
  run_env :: "string list \<Rightarrow> (error + line list) option"
  ps_el :: "error + string list"

definition py_print :: "line \<Rightarrow> world \<Rightarrow> world" where
  "py_print l w = w\<lparr>stdout := stdout w @ [l]\<rparr>"

text \<open>
  \<open>os.fork()\<close>, on the parent's side: the kernel picks a fresh PID, which is
  positive (so the parent never takes the branch \<open>pid == 0\<close>), the child runs
  \<open>body\<close> (the branch \<open>if pid == 0\<close> of the source, given its own PID and the
  world at the fork) and is entered in the table; the parent gets the PID.
\<close>

definition os_fork :: "(int \<Rightarrow> world \<Rightarrow> line list \<times> outcome \<times> int option) \<Rightarrow> world \<Rightarrow> int \<times> world" where
  "os_fork body w =
     (let p = int (last_pid w) + 1;
          (out, fin, nc) = body p w;
          c = \<lparr>cpid = p, cout = out, cend = fin, cnice = nc\<rparr>
      in (p, w\<lparr>last_pid := last_pid w + 1, children := children w @ [c],
               forked := forked w @ [c]\<rparr>))"

text \<open>
  \<open>os.wait()\<close>. With \<open>SIGCHLD\<close> ignored the call blocks until every child has
  ended and then fails with \<open>ECHILD\<close>. Otherwise it fails with \<open>ECHILD\<close> when the
  table is empty, blocks for ever when no child of the table ever ends, and else
  delivers one of the children that end, the one the scheduler picks, and removes it
  from the table.
\<close>

datatype wait_result = Delivered int int | Raised error | Blocked

definition pick_ready :: "nat list \<Rightarrow> child list \<Rightarrow> child" where
  "pick_ready sc ready = ready ! (case sc of [] \<Rightarrow> 0 | j # _ \<Rightarrow> j mod length ready)"

definition os_wait :: "world \<Rightarrow> wait_result \<times> world" where
  "os_wait w =
     (let ready = filter terminates (children w) in
      if sigchld_ign w then
        (if list_all terminates (children w)
         then (Raised ChildProcessError, w\<lparr>children := []\<rparr>)
         else (Blocked, w))
      else if children w = [] then (Raised ChildProcessError, w)
      else if ready = [] then (Blocked, w)
      else
        (let c = pick_ready (sched w) ready
         in (Delivered (cpid c) (wait_status c),
             w\<lparr>children := remove1 c (children w),
               sched := tl (sched w),
               reaped := reaped w @ [(cpid c, wait_status c)]\<rparr>)))"

section \<open>Splitting the command line: \<open>shlex.split\<close>\<close>

text \<open>
  Task 2 parses its command with \<open>shlex.split(cmd)\<close>, which is the standard
  library's lexer in POSIX mode with \<open>whitespace_split\<close> set, no comment characters
  and no punctuation characters. \<open>read_loop\<close> is the loop of its \<open>read_token\<close>
  under these settings, one equation per character read (\<open>[]\<close> is the end of the
  input). The lexer's state is \<open>' '\<close> (between tokens), \<open>'a'\<close> (in a word), a
  quote character, the escape character, or \<open>None\<close> (past the end).
\<close>

datatype lex_state = Between | InWord | InQuote char | InEscape | AtEOF

abbreviation dq :: char where
  "dq \<equiv> CHR 0x22"

abbreviation backslash :: char where
  "backslash \<equiv> CHR 0x5C"

definition lex_whitespace :: "char set" where
  "lex_whitespace = {CHR '' '', CHR 0x09, CHR 0x0D, CHR 0x0A}"

definition lex_quotes :: "char set" where
  "lex_quotes = {sq, dq}"

definition lex_escapedquotes :: "char set" where
  "lex_escapedquotes = {dq}"

text \<open>The end of \<open>read_token\<close>: an empty token that was never quoted is \<open>None\<close>.\<close>

definition finish :: "bool \<Rightarrow> string \<Rightarrow> error + string option" where
  "finish quoted tok = Inr (if \<not> quoted \<and> tok = [] then None else Some tok)"

text \<open>
  In the states \<open>' '\<close> and \<open>'a'\<close> the source tests the word characters before the
  quotes; a word character is neither a quote nor the escape character and is handled
  like every other character under \<open>whitespace_split\<close>, so the two tests are one
  branch here.
\<close>

fun read_loop :: "lex_state \<Rightarrow> bool \<Rightarrow> lex_state \<Rightarrow> string \<Rightarrow> string \<Rightarrow> (error + string option) \<times> lex_state \<times> string" where
  "read_loop st quoted esc tok [] =
     (case st of
        AtEOF \<Rightarrow> (finish quoted [], AtEOF, [])
      | Between \<Rightarrow> (finish quoted tok, AtEOF, [])
      | InWord \<Rightarrow> (finish quoted tok, AtEOF, [])
      | InQuote q \<Rightarrow> (Inl (ValueError ''No closing quotation''), st, [])
      | InEscape \<Rightarrow> (Inl (ValueError ''No escaped character''), st, []))"
| "read_loop st quoted esc tok (c # cs) =
     (case st of
        AtEOF \<Rightarrow> (finish quoted [], AtEOF, cs)
      | Between \<Rightarrow>
          (if c \<in> lex_whitespace then
             (if tok \<noteq> [] \<or> quoted then (finish quoted tok, Between, cs)
              else read_loop Between quoted esc tok cs)
           else if c = backslash then read_loop InEscape quoted InWord tok cs
           else if c \<in> lex_quotes then read_loop (InQuote c) quoted esc tok cs
           else read_loop InWord quoted esc [c] cs)
      | InQuote q \<Rightarrow>
          (if c = q then read_loop InWord True esc tok cs
           else if c = backslash \<and> q \<in> lex_escapedquotes then read_loop InEscape True (InQuote q) tok cs
           else read_loop (InQuote q) True esc (tok @ [c]) cs)
      | InEscape \<Rightarrow>
          (let tok1 = (if (case esc of InQuote q \<Rightarrow> q \<in> lex_quotes | _ \<Rightarrow> False) \<and>
                          c \<noteq> backslash \<and> esc \<noteq> InQuote c
                       then tok @ [backslash] else tok)
           in read_loop esc quoted esc (tok1 @ [c]) cs)
      | InWord \<Rightarrow>
          (if c \<in> lex_whitespace then
             (if tok \<noteq> [] \<or> quoted then (finish quoted tok, Between, cs)
              else read_loop Between quoted esc tok cs)
           else if c \<in> lex_quotes then read_loop (InQuote c) quoted esc tok cs
           else if c = backslash then read_loop InEscape quoted InWord tok cs
           else read_loop InWord quoted esc (tok @ [c]) cs))"

definition read_token :: "lex_state \<Rightarrow> string \<Rightarrow> (error + string option) \<times> lex_state \<times> string" where
  "read_token st inp = read_loop st False Between [] inp"

lemma read_loop_shorter:
  "read_loop st quoted esc tok inp = (r, st', rest) \<Longrightarrow> length rest \<le> length inp"
proof (induction inp arbitrary: st quoted esc tok)
  case Nil
  then show ?case by (cases st) auto
next
  case (Cons c cs)
  show ?case
  proof (cases st)
    case AtEOF
    with Cons.prems show ?thesis by auto
  next
    case Between
    with Cons.prems Cons.IH show ?thesis
      by (auto split: if_splits dest!: Cons.IH)
  next
    case InWord
    with Cons.prems show ?thesis
      by (auto split: if_splits dest!: Cons.IH)
  next
    case (InQuote q)
    with Cons.prems show ?thesis
      by (auto split: if_splits dest!: Cons.IH)
  next
    case InEscape
    with Cons.prems show ?thesis
      by (auto simp: Let_def split: if_splits dest!: Cons.IH)
  qed
qed

lemma read_token_consumes:
  assumes "read_token st inp = (Inr (Some t), st', rest)"
  shows "length rest < length inp"
proof (cases inp)
  case Nil
  with assms show ?thesis
    by (cases st) (auto simp: read_token_def finish_def)
next
  case (Cons c cs)
  have le: "\<And>s q e k r s' rest'. read_loop s q e k cs = (r, s', rest') \<Longrightarrow> length rest' \<le> length cs"
    by (rule read_loop_shorter)
  from assms Cons have "length rest \<le> length cs"
    by (cases st) (auto simp: read_token_def finish_def Let_def split: if_splits dest!: le)
  with Cons show ?thesis by simp
qed

text \<open>\<open>list(lex)\<close>: tokens are read until \<open>read_token\<close> returns \<open>None\<close>; an
  exception ends the iteration and propagates.\<close>

function shlex_tokens :: "lex_state \<Rightarrow> string \<Rightarrow> error + string list" where
  "shlex_tokens st inp =
     (case read_token st inp of
        (Inl e, st', rest) \<Rightarrow> Inl e
      | (Inr None, st', rest) \<Rightarrow> Inr []
      | (Inr (Some t), st', rest) \<Rightarrow>
          (case shlex_tokens st' rest of Inl e \<Rightarrow> Inl e | Inr ts \<Rightarrow> Inr (t # ts)))"
  by pat_completeness auto
termination
  by (relation "measure (\<lambda>(st, inp). length inp)") (auto dest: read_token_consumes [OF sym])

declare shlex_tokens.simps [simp del]

definition shlex_split :: "string \<Rightarrow> error + string list" where
  "shlex_split s = shlex_tokens Between s"

section \<open>Task 1: create N children and wait\<close>

text \<open>The child branch: one greeting, a sleep, \<open>os._exit(0)\<close>.\<close>

definition task1_child :: "int \<Rightarrow> int \<Rightarrow> world \<Rightarrow> line list \<times> outcome \<times> int option" where
  "task1_child i p w =
     ([[S ''[Child] PID='', I p, S '' PPID='', I (pid_self w),
        S ('' Message='' @ [sq] @ ''Hello from child ''), I (i + 1), S [sq]]],
      Exited 0, None)"

text \<open>The loop \<open>for i in range(n)\<close>; \<open>chs\<close> is the list \<open>children\<close> of the source.\<close>

fun task1_spawn :: "int list \<Rightarrow> int list \<Rightarrow> world \<Rightarrow> int list \<times> world" where
  "task1_spawn [] chs w = (chs, w)"
| "task1_spawn (i # rest) chs w =
     (let (pid, w1) = os_fork (task1_child i) w
      in task1_spawn rest (chs @ [pid]) (py_print [S ''[Parent] spawned child PID='', I pid] w1))"

text \<open>The loop \<open>for _ in children\<close>: one \<open>os.wait()\<close> for each recorded child, with
  no handler around it.\<close>

fun task1_reap :: "int list \<Rightarrow> world \<Rightarrow> outcome \<times> world" where
  "task1_reap [] w = (Returned, w)"
| "task1_reap (x # chs) w =
     (case os_wait w of
        (Delivered p st, w1) \<Rightarrow>
          task1_reap chs (py_print [S ''[Parent] wait() returned pid='', I p, S '' status='', I st] w1)
      | (Raised e, w1) \<Rightarrow> (Uncaught e, w1)
      | (Blocked, w1) \<Rightarrow> (Hung, w1))"

definition task1_create_children :: "int \<Rightarrow> world \<Rightarrow> outcome \<times> world" where
  "task1_create_children n w =
     (let w0 = py_print [S ''[Task 1] Parent PID: '', I (pid_self w), S '', creating '', I n, S '' children''] w;
          (chs, w1) = task1_spawn (py_range n) [] w0
      in case task1_reap chs w1 of
           (Returned, w2) \<Rightarrow> (Returned, py_print [S ''[Task 1] All children reaped.''] w2)
         | (fin, w2) \<Rightarrow> (fin, w2))"

section \<open>Task 2: exec or run a command from children\<close>

text \<open>
  The child branch. With \<open>use_exec\<close> the child calls \<open>os.execvp(argv[0], argv)\<close>:
  \<open>argv[0]\<close> raises \<open>IndexError\<close> on an empty list; a successful call replaces the
  image; \<open>FileNotFoundError\<close> is caught, reported and ends the child with
  \<open>os._exit(1)\<close>; any other exception is not caught. Without \<open>use_exec\<close> the child
  runs the command with \<open>subprocess.run\<close> (\<open>None\<close>: it never returns), reports
  and ends with \<open>os._exit(0)\<close>.
\<close>

definition task2_child :: "bool \<Rightarrow> string list \<Rightarrow> int \<Rightarrow> int \<Rightarrow> world \<Rightarrow> line list \<times> outcome \<times> int option" where
  "task2_child use_exec argv i p w =
     (let about = [S ''[Child '', I (i + 1), S ''] PID='', I p, S '' PPID='', I (pid_self w),
                   S '' ABOUT TO RUN: '', SL argv]
      in if use_exec then
           (case argv of
              [] \<Rightarrow> ([about], Uncaught IndexError, None)
            | prog # _ \<Rightarrow>
                (case execvp_env w prog argv of
                   Replaced out fin \<Rightarrow> (about # out, fin, None)
                 | ExecRaises e \<Rightarrow>
                     if e = FileNotFoundError
                     then ([about, [S ''[Child '', I (i + 1), S ''] exec failed: '', S prog, S '' not found'']],
                           Exited 1, None)
                     else ([about], Uncaught e, None)))
         else
           (case run_env w argv of
              None \<Rightarrow> ([about], Hung, None)
            | Some (Inl e) \<Rightarrow> ([about], Uncaught e, None)
            | Some (Inr out) \<Rightarrow>
                (about # out @ [[S ''[Child '', I (i + 1), S ''] subprocess finished, exiting'']],
                 Exited 0, None)))"

fun task2_spawn :: "bool \<Rightarrow> string list \<Rightarrow> int list \<Rightarrow> world \<Rightarrow> world" where
  "task2_spawn use_exec argv [] w = w"
| "task2_spawn use_exec argv (i # rest) w =
     (let (pid, w1) = os_fork (task2_child use_exec argv i) w
      in task2_spawn use_exec argv rest
           (py_print [S ''[Parent] spawned child PID='', I pid, S '' for command''] w1))"

lemma pick_ready_in: "ready \<noteq> [] \<Longrightarrow> pick_ready sc ready \<in> set ready"
  by (auto simp: pick_ready_def split: list.splits)

lemma os_wait_Delivered:
  assumes "os_wait w = (Delivered p st, w1)"
  obtains c where "c \<in> set (children w)" "terminates c" "p = cpid c" "st = wait_status c"
    "\<not> sigchld_ign w"
    "w1 = w\<lparr>children := remove1 c (children w), sched := tl (sched w),
             reaped := reaped w @ [(cpid c, wait_status c)]\<rparr>"
proof -
  define c where "c = pick_ready (sched w) (filter terminates (children w))"
  from assms have ne: "filter terminates (children w) \<noteq> []" and ns: "\<not> sigchld_ign w"
    by (auto simp: os_wait_def Let_def split: if_splits)
  from pick_ready_in [OF ne] have "c \<in> set (filter terminates (children w))"
    by (simp add: c_def)
  then have "c \<in> set (children w)" "terminates c" by auto
  moreover from assms ne have "p = cpid c" "st = wait_status c"
    "w1 = w\<lparr>children := remove1 c (children w), sched := tl (sched w),
             reaped := reaped w @ [(cpid c, wait_status c)]\<rparr>"
    by (auto simp: os_wait_def Let_def c_def split: if_splits)
  ultimately show thesis using ns that by blast
qed

lemma os_wait_fewer:
  assumes "os_wait w = (Delivered p st, w1)"
  shows "length (children w1) < length (children w)"
proof -
  from assms obtain c where "c \<in> set (children w)" and "children w1 = remove1 c (children w)"
    by (rule os_wait_Delivered) simp
  then show ?thesis
    using length_pos_if_in_set [of c "children w"] by (simp add: length_remove1)
qed

text \<open>The loop \<open>while True\<close> around \<open>os.wait()\<close>, left through
  \<open>except ChildProcessError: break\<close>.\<close>

function task2_reap :: "world \<Rightarrow> outcome \<times> world" where
  "task2_reap w =
     (case os_wait w of
        (Delivered p st, w1) \<Rightarrow>
          task2_reap (py_print [S ''[Parent] waited pid='', I p, S '' status='', I st] w1)
      | (Raised e, w1) \<Rightarrow> (if e = ChildProcessError then (Returned, w1) else (Uncaught e, w1))
      | (Blocked, w1) \<Rightarrow> (Hung, w1))"
  by pat_completeness auto
termination
  by (relation "measure (\<lambda>w. length (children w))")
     (auto simp: py_print_def dest: os_wait_fewer [OF sym])

declare task2_reap.simps [simp del]

definition task2_exec_children :: "int \<Rightarrow> string \<Rightarrow> bool \<Rightarrow> world \<Rightarrow> outcome \<times> world" where
  "task2_exec_children n cmd use_exec w =
     (case shlex_split cmd of
        Inl e \<Rightarrow> (Uncaught e, w)
      | Inr argv \<Rightarrow>
          (let w0 = py_print [S ''[Task 2] Parent PID='', I (pid_self w), S '', running '', I n,
                              S '' children each executing: '', SL argv] w;
               w1 = task2_spawn use_exec argv (py_range n) w0
           in case task2_reap w1 of
                (Returned, w2) \<Rightarrow> (Returned, py_print [S ''[Task 2] All children finished.''] w2)
              | (fin, w2) \<Rightarrow> (fin, w2)))"

section \<open>Task 3: the zombie and the orphan\<close>

fun starts_with :: "string \<Rightarrow> string \<Rightarrow> bool" where
  "starts_with [] s = True"
| "starts_with (p # ps) [] = False"
| "starts_with (p # ps) (c # cs) = (p = c \<and> starts_with ps cs)"

text \<open>\<open>sub in s\<close> on strings.\<close>

fun contains :: "string \<Rightarrow> string \<Rightarrow> bool" where
  "contains sub [] = (sub = [])"
| "contains sub (c # cs) = (starts_with sub (c # cs) \<or> contains sub cs)"

definition task3_zombie_demo :: "world \<Rightarrow> outcome \<times> world" where
  "task3_zombie_demo w =
     (let w0 = py_print [S ''[Task 3 - zombie] Starting demo''] w;
          (pid, w1) = os_fork (\<lambda>p cw.
             ([[S ''[Child] PID='', I p, S '' exiting immediately (becomes zombie until parent waits).'']],
              Exited 0, None)) w0;
          w2 = py_print [S ''[Parent] PID='', I (pid_self w1),
                         S '' NOT calling wait() yet. Checking for defunct processes...''] w1
      in case ps_el w2 of
           Inl e \<Rightarrow> (Uncaught e, w2)
         | Inr out \<Rightarrow>
             (let lines = filter (\<lambda>L. contains ''defunct'' L \<or> contains ''<defunct>'' L) out;
                  w3 = (if lines \<noteq> []
                        then fold (\<lambda>L. py_print [S L]) lines
                               (py_print [S ''[Parent] Found defunct lines (zombie):''] w2)
                        else py_print [S (''[Parent] No defunct lines found (timing may vary). Full ps output (filtered for ''
                                          @ [sq] @ ''defunct'' @ [sq] @ ''):'')] w2)
              in case os_wait w3 of
                   (Delivered p st, w4) \<Rightarrow>
                     (Returned,
                      py_print [S ''[Task 3 - zombie] Demo complete.'']
                        (py_print [S ''[Parent] After wait(): '', PR p st] w4))
                 | (Raised e, w4) \<Rightarrow> (Uncaught e, w4)
                 | (Blocked, w4) \<Rightarrow> (Hung, w4)))"

text \<open>
  The orphan demo: the parent leaves at once with \<open>os._exit(0)\<close>; the child reports
  its parent before and after the sleep. Whether the adoption by the init process
  has already happened at the first report is a race the environment decides.
\<close>

definition task3_orphan_demo :: "int \<Rightarrow> world \<Rightarrow> outcome \<times> world" where
  "task3_orphan_demo sleep_child w =
     (let w0 = py_print [S ''[Task 3 - orphan] Demo: parent will exit immediately; child will continue.''] w;
          (pid, w1) = os_fork (\<lambda>p cw.
             ([[S ''[Child] Started. PID='', I p, S '' initial PPID='',
                I (if adopted_early cw then pid_init cw else pid_self cw),
                S ''. Sleeping '', I sleep_child, S ''s...''],
               [S ''[Child] After sleep: PID='', I p, S '' now PPID='', I (pid_init cw),
                S '' (should be 1 if orphaned).'']],
              Exited 0, None)) w0
      in (Exited 0,
          py_print [S ''[Parent] PID='', I (pid_self w1), S '' -> exiting immediately. Child PID='', I pid] w1))"

section \<open>Task 4: inspect /proc/[pid]\<close>

text \<open>
  A character of a string stands for a code point below 256. \<open>str.isspace\<close> holds
  below 256 for the ASCII whitespace, for the separators \<open>U+001C\<close> to \<open>U+001F\<close>,
  for \<open>U+0085\<close> and for \<open>U+00A0\<close>; \<open>str.strip()\<close> removes these at both ends.
  The lines of a status file are ASCII text.
\<close>

definition py_isspace :: "char \<Rightarrow> bool" where
  "py_isspace c = (c \<in> {CHR '' '', CHR 0x09, CHR 0x0A, CHR 0x0B, CHR 0x0C, CHR 0x0D,
                         CHR 0x1C, CHR 0x1D, CHR 0x1E, CHR 0x1F, CHR 0x85, CHR 0xA0})"

definition str_strip :: "string \<Rightarrow> string" where
  "str_strip s = rev (dropWhile py_isspace (rev (dropWhile py_isspace s)))"

definition status_fields :: "string list" where
  "status_fields = [''Name:'', ''State:'', ''VmRSS:'', ''VmSize:'', ''Threads:'']"

text \<open>The \<open>try\<close> block around the status file: the selected lines are printed as they
  are read; an exception of \<open>open\<close> or of the reading is reported.\<close>

definition read_status :: "proc_entry \<Rightarrow> world \<Rightarrow> world" where
  "read_status pe w =
     (let w1 = fold (\<lambda>l v. if list_ex (\<lambda>f. starts_with f l) status_fields
                            then py_print [S (str_strip l)] v else v) (status_lines pe) w
      in case status_err pe of
           None \<Rightarrow> w1
         | Some e \<Rightarrow> py_print [S ''Error reading status:'', S '' '', E e] w1)"

definition read_exe :: "proc_entry \<Rightarrow> world \<Rightarrow> world" where
  "read_exe pe w =
     (case exe_link pe of
        Inr exe \<Rightarrow> py_print [S (nl # ''-- exe ->''), S '' '', S exe] w
      | Inl e \<Rightarrow> py_print [S (nl # ''-- exe not readable:''), S '' '', E e] w)"

definition read_fds :: "proc_entry \<Rightarrow> world \<Rightarrow> world" where
  "read_fds pe w =
     (case fd_dir pe of
        Inl e \<Rightarrow> py_print [S (nl # ''-- fd not accessible:''), S '' '', E e] w
      | Inr fds \<Rightarrow>
          fold (\<lambda>(name, link) v.
                  case link of
                    Inr target \<Rightarrow> py_print [S name, S '' -> '', S target] v
                  | Inl e \<Rightarrow> py_print [S name, S '' -> (unreadable) '', E e] v)
               fds
               (py_print [S (nl # ''-- ''), I (int (length fds)), S '' open file descriptors:''] w))"

definition task4_inspect :: "int \<Rightarrow> world \<Rightarrow> outcome \<times> world" where
  "task4_inspect pid w =
     (let w0 = py_print [S ''[Task 4] Inspecting PID '', I pid] w
      in case procfs w0 pid of
           None \<Rightarrow>
             (Returned,
              py_print [S ''[Task 4] /proc/'', I pid,
                        S '' does not exist. Process may not be running or you lack permission.''] w0)
         | Some pe \<Rightarrow>
             (let w1 = py_print [S (nl # ''-- status --'')] w0;
                  w2 = read_status pe w1;
                  w3 = read_exe pe w2;
                  w4 = read_fds pe w3
              in (Returned, w4)))"

section \<open>Task 5: children with different nice values\<close>

text \<open>The slice \<open>xs[:n]\<close>: the first \<open>n\<close> elements, and for a negative \<open>n\<close> all but
  the last \<open>-n\<close>.\<close>

definition py_slice_to :: "'a list \<Rightarrow> int \<Rightarrow> 'a list" where
  "py_slice_to xs n = (if 0 \<le> n then take (nat n) xs else take (nat (int (length xs) + n)) xs)"

text \<open>
  The child branch: \<open>os.nice(niceval)\<close> inside \<open>try\<close> with \<open>except Exception: pass\<close>
  (its failure changes nothing the child prints), the two reports around the busy
  work, \<open>os._exit(0)\<close>.
\<close>

definition task5_child :: "int \<Rightarrow> int \<Rightarrow> int \<Rightarrow> world \<Rightarrow> line list \<times> outcome \<times> int option" where
  "task5_child iterations niceval p w =
     ([[S ''[Child] PID='', I p, S '' nice='', I niceval, S '' starting work.''],
       [S ''[Child] PID='', I p, S '' nice='', I niceval, S '' finished work. result='',
        I (busy_work iterations)]],
      Exited 0, Some niceval)"

fun task5_spawn :: "int \<Rightarrow> int list \<Rightarrow> int list \<Rightarrow> world \<Rightarrow> int list \<times> world" where
  "task5_spawn iterations [] chs w = (chs, w)"
| "task5_spawn iterations (niceval # rest) chs w =
     (let (pid, w1) = os_fork (task5_child iterations niceval) w
      in task5_spawn iterations rest (chs @ [pid])
           (py_print [S ''[Parent] spawned child '', I pid, S '' with target nice='', I niceval] w1))"

text \<open>The loop \<open>while True\<close> inside \<open>try\<close>, with \<open>except ChildProcessError: pass\<close>;
  \<open>order\<close> is the list of the source.\<close>

function task5_reap :: "int list \<Rightarrow> world \<Rightarrow> int list \<times> outcome \<times> world" where
  "task5_reap order w =
     (case os_wait w of
        (Delivered p st, w1) \<Rightarrow>
          task5_reap (order @ [p])
            (py_print [S ''[Parent] Child finished: pid='', I p, S '' status='', I st] w1)
      | (Raised e, w1) \<Rightarrow> (order, if e = ChildProcessError then Returned else Uncaught e, w1)
      | (Blocked, w1) \<Rightarrow> (order, Hung, w1))"
  by pat_completeness auto
termination
  by (relation "measure (\<lambda>(order, w). length (children w))")
     (auto simp: py_print_def dest: os_wait_fewer [OF sym])

declare task5_reap.simps [simp del]

definition nicelist :: "int list" where
  "nicelist = [0, 5, 10, 15, 19]"

definition task5_priority :: "int \<Rightarrow> int \<Rightarrow> world \<Rightarrow> outcome \<times> world" where
  "task5_priority n_children iterations w =
     (let w0 = py_print [S ''[Task 5] Spawning '', I n_children,
                         S '' CPU-bound children with different nice values.''] w;
          (chs, w1) = task5_spawn iterations (py_slice_to nicelist n_children) [] w0;
          (order, fin, w2) = task5_reap [] w1
      in if fin = Returned
         then (Returned, py_print [S ''[Task 5] Finish order (PIDs):'', S '' '', IL order] w2)
         else (fin, w2))"

section \<open>The dispatcher\<close>

text \<open>The parsed command line: \<open>--pid\<close> has no default, so it is \<open>None\<close> when absent.
  \<open>argparse\<close> itself is not modelled: it leaves with status 2 before any task starts
  when the command line does not parse.\<close>

record args =
  arg_task :: string
  arg_n :: int
  arg_cmd :: string
  arg_pid :: "int option"
  arg_iterations :: int

definition ensure_linux :: "world \<Rightarrow> outcome \<times> world" where
  "ensure_linux w =
     (if platform_system w \<noteq> ''Linux''
      then (Exited 1, py_print [S ''WARNING: This script requires Linux (os.fork and /proc). Exiting.''] w)
      else (Returned, w))"

text \<open>\<open>not args.pid\<close> holds for \<open>None\<close> and for \<open>0\<close>.\<close>

definition py_not :: "int option \<Rightarrow> bool" where
  "py_not v = (case v of None \<Rightarrow> True | Some x \<Rightarrow> x = 0)"

definition main :: "args \<Rightarrow> world \<Rightarrow> outcome \<times> world" where
  "main a w =
     (case ensure_linux w of
        (Returned, w0) \<Rightarrow>
          if arg_task a = ''1'' then task1_create_children (arg_n a) w0
          else if arg_task a = ''2'' then task2_exec_children (arg_n a) (arg_cmd a) True w0
          else if arg_task a = ''3z'' then task3_zombie_demo w0
          else if arg_task a = ''3o'' then task3_orphan_demo 10 w0
          else if arg_task a = ''4'' then
            (if py_not (arg_pid a)
             then (Exited 1, py_print [S ''Please provide --pid <pid> for task 4''] w0)
             else task4_inspect (the (arg_pid a)) w0)
          else if arg_task a = ''5'' then task5_priority (arg_n a) (arg_iterations a) w0
          else (Returned, py_print [S ''Unknown task''] w0)
      | (fin, w0) \<Rightarrow> (fin, w0))"

text \<open>The launch the claims are about: the process starts with no children of its own
  and with the default disposition of \<open>SIGCHLD\<close>.\<close>

definition fresh :: "world \<Rightarrow> bool" where
  "fresh w = (children w = [] \<and> \<not> sigchld_ign w)"

text \<open>A world for the examples: PID 100 on Linux, first child PID 101, nothing in
  \<open>/proc\<close>, no program on the search path.\<close>

definition world0 :: world where
  "world0 = \<lparr>platform_system = ''Linux'', pid_self = 100, pid_init = 1, adopted_early = False,
             last_pid = 100, children = [], sigchld_ign = False, sched = [], stdout = [],
             forked = [], reaped = [], procfs = (\<lambda>p. None),
             execvp_env = (\<lambda>prog argv. ExecRaises FileNotFoundError),
             run_env = (\<lambda>argv. Some (Inl FileNotFoundError)), ps_el = Inr []\<rparr>"

section \<open>Reading the history of a run\<close>

text \<open>The children forked and the statuses reaped between two worlds of one run.\<close>

definition new_forked :: "world \<Rightarrow> world \<Rightarrow> child list" where
  "new_forked w w' = drop (length (forked w)) (forked w')"

definition new_reaped :: "world \<Rightarrow> world \<Rightarrow> (int \<times> int) list" where
  "new_reaped w w' = drop (length (reaped w)) (reaped w')"

text \<open>\<open>grown w cs w'\<close>: the world \<open>w'\<close> is \<open>w\<close> after forking the children \<open>cs\<close>, one
  after the other, and printing.\<close>

definition grown :: "world \<Rightarrow> child list \<Rightarrow> world \<Rightarrow> bool" where
  "grown w cs w' =
     (children w' = children w @ cs \<and> forked w' = forked w @ cs \<and> reaped w' = reaped w \<and>
      sched w' = sched w \<and> sigchld_ign w' = sigchld_ign w \<and>
      last_pid w' = last_pid w + length cs \<and>
      map cpid cs = map (\<lambda>k. int (last_pid w) + 1 + int k) [0..<length cs] \<and>
      pid_self w' = pid_self w \<and> execvp_env w' = execvp_env w \<and> run_env w' = run_env w)"

text \<open>Whether the command a task 2 child runs ever ends: a replaced image may run for
  ever, and so may the subprocess the child waits for.\<close>

definition task2_child_ends :: "bool \<Rightarrow> string list \<Rightarrow> world \<Rightarrow> bool" where
  "task2_child_ends use_exec argv w =
     (if use_exec then
        (case argv of
           [] \<Rightarrow> True
         | prog # _ \<Rightarrow>
             (case execvp_env w prog argv of
                Replaced out fin \<Rightarrow> fin \<noteq> Hung
              | ExecRaises e \<Rightarrow> True))
      else run_env w argv \<noteq> None)"

text \<open>A command line for the examples: task 1 with the defaults of the parser.\<close>

definition args0 :: args where
  "args0 = \<lparr>arg_task = ''1'', arg_n = 3, arg_cmd = ''ls -l'', arg_pid = None, arg_iterations = 2000000\<rparr>"

section \<open>What the inspector reports, sub-read by sub-read\<close>

text \<open>
  The lines each of the three sub-reads of task 4 contributes, written as functions of
  that sub-read alone: the selected status lines and the report of a failed read; the
  line for the \<open>exe\<close> link; the count and one line per descriptor, or the report of
  a failed listing.
\<close>

definition status_report :: "string list \<Rightarrow> error option \<Rightarrow> line list" where
  "status_report ls err =
     map (\<lambda>l. [S (str_strip l)]) (filter (\<lambda>l. list_ex (\<lambda>f. starts_with f l) status_fields) ls) @
     (case err of None \<Rightarrow> [] | Some e \<Rightarrow> [[S ''Error reading status:'', S '' '', E e]])"

definition exe_report :: "error + string \<Rightarrow> line list" where
  "exe_report l =
     (case l of
        Inr exe \<Rightarrow> [[S (nl # ''-- exe ->''), S '' '', S exe]]
      | Inl e \<Rightarrow> [[S (nl # ''-- exe not readable:''), S '' '', E e]])"

definition fd_line :: "string \<times> (error + string) \<Rightarrow> line" where
  "fd_line x =
     (case x of
        (name, Inr target) \<Rightarrow> [S name, S '' -> '', S target]
      | (name, Inl e) \<Rightarrow> [S name, S '' -> (unreadable) '', E e])"

definition fd_report :: "error + (string \<times> (error + string)) list \<Rightarrow> line list" where
  "fd_report d =
     (case d of
        Inl e \<Rightarrow> [[S (nl # ''-- fd not accessible:''), S '' '', E e]]
      | Inr fds \<Rightarrow>
          [S (nl # ''-- ''), I (int (length fds)), S '' open file descriptors:''] # map fd_line fds)"

text \<open>An entry of \<open>/proc\<close> whose three sub-reads all fail, and a world that has it as
  \<open>/proc/7\<close>.\<close>

definition unreadable_entry :: proc_entry where
  "unreadable_entry =
     \<lparr>status_lines = [], status_err = Some (OtherError ''EACCES''),
      exe_link = Inl (OtherError ''EACCES''), fd_dir = Inl (OtherError ''EACCES'')\<rparr>"

definition world7 :: world where
  "world7 = world0\<lparr>procfs := (\<lambda>p. if p = 7 then Some unreadable_entry else None)\<rparr>"

text \<open>Launches other than the ordinary one, for the examples: the process inherits a
  child (PID 50) that has ended; the process is started with \<open>SIGCHLD\<close> ignored; and a
  world where \<open>execvp\<close> fails because a component of the path is not a directory.\<close>

definition inherited :: child where
  "inherited = \<lparr>cpid = 50, cout = [], cend = Exited 0, cnice = None\<rparr>"

definition world_inherited :: world where
  "world_inherited = world0\<lparr>children := [inherited]\<rparr>"

definition world_sigign :: world where
  "world_sigign = world0\<lparr>sigchld_ign := True\<rparr>"

definition world_notdir :: world where
  "world_notdir = world0\<lparr>execvp_env := (\<lambda>prog argv. ExecRaises (OtherError ''NotADirectoryError''))\<rparr>"

section \<open>Command lines made of words\<close>

text \<open>
  Shell-style splitting, in its own terms. A blank is a space, a tab, a line feed or a
  carriage return. A command line is a sequence of words separated by blanks. A word is
  a sequence of parts: a plain character (no blank, quote or backslash), a backslash
  followed by any character (which stands for that character), a segment in single
  quotes (everything up to the next single quote, taken literally), or a segment in
  double quotes, where a backslash makes the next character literal and stays itself
  unless that character is a double quote or a backslash. The token of a word is the
  concatenation of what its parts stand for, so a quoted segment stays inside one
  token with the blanks it holds.
\<close>

definition blank_char :: "char \<Rightarrow> bool" where
  "blank_char c = (c = CHR '' '' \<or> c = CHR 0x09 \<or> c = CHR 0x0A \<or> c = CHR 0x0D)"

definition plain_char :: "char \<Rightarrow> bool" where
  "plain_char c = (\<not> blank_char c \<and> c \<noteq> sq \<and> c \<noteq> dq \<and> c \<noteq> backslash)"

datatype dq_item = DChar char | DEsc char

fun item_ok :: "dq_item \<Rightarrow> bool" where
  "item_ok (DChar c) = (c \<noteq> dq \<and> c \<noteq> backslash)"
| "item_ok (DEsc c) = True"

fun item_text :: "dq_item \<Rightarrow> string" where
  "item_text (DChar c) = [c]"
| "item_text (DEsc c) = [backslash, c]"

fun item_value :: "dq_item \<Rightarrow> string" where
  "item_value (DChar c) = [c]"
| "item_value (DEsc c) = (if c = dq \<or> c = backslash then [c] else [backslash, c])"

datatype part = Bare char | Esc char | SQuoted string | DQuoted "dq_item list"

fun part_ok :: "part \<Rightarrow> bool" where
  "part_ok (Bare c) = plain_char c"
| "part_ok (Esc c) = True"
| "part_ok (SQuoted b) = (sq \<notin> set b)"
| "part_ok (DQuoted its) = list_all item_ok its"

fun part_text :: "part \<Rightarrow> string" where
  "part_text (Bare c) = [c]"
| "part_text (Esc c) = [backslash, c]"
| "part_text (SQuoted b) = sq # b @ [sq]"
| "part_text (DQuoted its) = dq # concat (map item_text its) @ [dq]"

fun part_value :: "part \<Rightarrow> string" where
  "part_value (Bare c) = [c]"
| "part_value (Esc c) = [c]"
| "part_value (SQuoted b) = b"
| "part_value (DQuoted its) = concat (map item_value its)"

fun is_quoted :: "part \<Rightarrow> bool" where
  "is_quoted (SQuoted b) = True"
| "is_quoted (DQuoted its) = True"
| "is_quoted p = False"

definition word_ok :: "part list \<Rightarrow> bool" where
  "word_ok ps = (ps \<noteq> [] \<and> list_all part_ok ps)"

definition word_text :: "part list \<Rightarrow> string" where
  "word_text ps = concat (map part_text ps)"

definition word_value :: "part list \<Rightarrow> string" where
  "word_value ps = concat (map part_value ps)"

definition blank :: "string \<Rightarrow> bool" where
  "blank s = list_all blank_char s"

text \<open>A command line as a list of words, each with the blanks that follow it: only the
  last word may have none.\<close>

fun command_ok :: "(part list \<times> string) list \<Rightarrow> bool" where
  "command_ok [] = True"
| "command_ok [(ps, sep)] = (word_ok ps \<and> blank sep)"
| "command_ok ((ps, sep) # x # rest) = (word_ok ps \<and> sep \<noteq> [] \<and> blank sep \<and> command_ok (x # rest))"

definition command_text :: "(part list \<times> string) list \<Rightarrow> string" where
  "command_text items = concat (map (\<lambda>(ps, sep). word_text ps @ sep) items)"

text \<open>
  A command line that is not of this form ends inside a quoted segment or on a
  backslash: after complete words, each followed by at least one blank, and the parts
  of an unfinished word, comes an open single-quoted segment, an open double-quoted
  segment, a backslash, or an open double-quoted segment that ends on a backslash.
\<close>

definition prefix_ok :: "(part list \<times> string) list \<Rightarrow> bool" where
  "prefix_ok items = list_all (\<lambda>(ps, sep). word_ok ps \<and> sep \<noteq> [] \<and> blank sep) items"

datatype tail = OpenS string | OpenD "dq_item list" | Dangling | DanglingD "dq_item list"

fun tail_ok :: "tail \<Rightarrow> bool" where
  "tail_ok (OpenS b) = (sq \<notin> set b)"
| "tail_ok (OpenD its) = list_all item_ok its"
| "tail_ok Dangling = True"
| "tail_ok (DanglingD its) = list_all item_ok its"

fun tail_text :: "tail \<Rightarrow> string" where
  "tail_text (OpenS b) = sq # b"
| "tail_text (OpenD its) = dq # concat (map item_text its)"
| "tail_text Dangling = [backslash]"
| "tail_text (DanglingD its) = dq # concat (map item_text its) @ [backslash]"

fun tail_error :: "tail \<Rightarrow> error" where
  "tail_error (OpenS b) = ValueError ''No closing quotation''"
| "tail_error (OpenD its) = ValueError ''No closing quotation''"
| "tail_error Dangling = ValueError ''No escaped character''"
| "tail_error (DanglingD its) = ValueError ''No escaped character''"

section \<open>Properties\<close>

subsection \<open>Forking and reaping\<close>

lemma grown_refl: "grown w [] w"
  by (simp add: grown_def)

lemma grown_print: "grown w cs w' \<Longrightarrow> grown w cs (py_print l w')"
  by (simp add: grown_def py_print_def)

lemma grown_fork:
  assumes "os_fork body w = (p, w1)"
  shows "p = int (last_pid w) + 1"
    and "grown w [\<lparr>cpid = p, cout = fst (body p w), cend = fst (snd (body p w)), cnice = snd (snd (body p w))\<rparr>] w1"
  using assms by (auto simp: os_fork_def Let_def grown_def split: prod.splits)

lemma upt_shift: "[0..<a + b] = [0..<a] @ map (\<lambda>k. a + k) [0..<b]"
  by (induction b) auto

lemma grown_trans:
  assumes "grown w cs w1" and "grown w1 ds w2"
  shows "grown w (cs @ ds) w2"
proof -
  have "map (\<lambda>k. int (last_pid w) + 1 + int k) [0..<length cs + length ds]
        = map cpid cs @ map cpid ds"
    using assms by (simp add: grown_def upt_shift [of "length cs"] comp_def add.assoc)
  with assms show ?thesis
    by (simp add: grown_def)
qed

lemma grown_distinct: "grown w cs w' \<Longrightarrow> distinct (map cpid cs)"
  by (simp add: grown_def distinct_map inj_on_def)

lemma task1_spawn_grown:
  "task1_spawn js chs w = (chs', w') \<Longrightarrow>
     \<exists>cs. grown w cs w' \<and> chs' = chs @ map cpid cs \<and> length cs = length js \<and>
          list_all (\<lambda>c. cend c = Exited 0) cs"
proof (induction js arbitrary: chs w)
  case Nil
  then show ?case by (auto intro: grown_refl)
next
  case (Cons i js)
  obtain p w1 where f: "os_fork (task1_child i) w = (p, w1)"
    by (cases "os_fork (task1_child i) w")
  let ?c = "\<lparr>cpid = p, cout = fst (task1_child i p w), cend = fst (snd (task1_child i p w)),
            cnice = snd (snd (task1_child i p w))\<rparr>"
  let ?w2 = "py_print [S ''[Parent] spawned child PID='', I p] w1"
  have g1: "grown w [?c] ?w2"
    using grown_fork(2) [OF f] by (rule grown_print)
  from Cons.prems f have "task1_spawn js (chs @ [p]) ?w2 = (chs', w')"
    by simp
  from Cons.IH [OF this] obtain cs where cs: "grown ?w2 cs w'" "chs' = (chs @ [p]) @ map cpid cs"
    "length cs = length js" "list_all (\<lambda>c. cend c = Exited 0) cs"
    by blast
  have "grown w (?c # cs) w'"
    using grown_trans [OF g1 cs(1)] by simp
  moreover have "cend ?c = Exited 0" by (simp add: task1_child_def)
  ultimately show ?case using cs by (intro exI [of _ "?c # cs"]) simp
qed

lemma os_wait_empty: "\<not> sigchld_ign w \<Longrightarrow> children w = [] \<Longrightarrow> os_wait w = (Raised ChildProcessError, w)"
  by (simp add: os_wait_def)

lemma os_wait_ign:
  "sigchld_ign w \<Longrightarrow> list_all terminates (children w) \<Longrightarrow>
     os_wait w = (Raised ChildProcessError, w\<lparr>children := []\<rparr>)"
  by (simp add: os_wait_def Let_def)

lemma os_wait_step:
  assumes "\<not> sigchld_ign w" and "list_all terminates (children w)" and "children w \<noteq> []"
  obtains c where "c \<in> set (children w)"
    "os_wait w = (Delivered (cpid c) (wait_status c),
       w\<lparr>children := remove1 c (children w), sched := tl (sched w),
         reaped := reaped w @ [(cpid c, wait_status c)]\<rparr>)"
proof -
  from assms(2) have all: "filter terminates (children w) = children w"
    by (simp add: list_all_iff)
  let ?c = "pick_ready (sched w) (children w)"
  have "?c \<in> set (children w)"
    using assms(3) by (rule pick_ready_in)
  moreover have "os_wait w = (Delivered (cpid ?c) (wait_status ?c),
       w\<lparr>children := remove1 ?c (children w), sched := tl (sched w),
         reaped := reaped w @ [(cpid ?c, wait_status ?c)]\<rparr>)"
    using assms(1,3) by (simp add: os_wait_def Let_def all)
  ultimately show thesis by (rule that)
qed


lemma mset_map_remove1:
  "c \<in> set xs \<Longrightarrow> mset (map f xs) = add_mset (f c) (mset (map f (remove1 c xs)))"
  by (induction xs) auto

lemma list_all_remove1:
  "c \<in> set xs \<Longrightarrow> P c \<Longrightarrow> list_all P (remove1 c xs) = list_all P xs"
  by (induction xs) auto

lemma os_wait_Raised:
  assumes "os_wait w = (Raised e, w1)"
  shows "e = ChildProcessError" and "list_all terminates (children w)" and "children w1 = []"
    and "forked w1 = forked w" and "reaped w1 = reaped w"
  using assms
  by (auto simp: os_wait_def Let_def split: if_splits)

lemma os_wait_Blocked:
  assumes "os_wait w = (Blocked, w1)"
  shows "\<not> list_all terminates (children w)" and "w1 = w"
  using assms
  by (auto simp: os_wait_def Let_def list_all_iff filter_empty_conv neq_Nil_conv split: if_splits)

lemma task2_reap_sum:
  "case task2_reap w of (fin, w') \<Rightarrow>
     fin = (if list_all terminates (children w) then Returned else Hung) \<and>
     forked w' = forked w \<and>
     (fin = Returned \<longrightarrow> children w' = []) \<and>
     (\<not> sigchld_ign w \<longrightarrow> fin = Returned \<longrightarrow>
        (\<exists>rs. reaped w' = reaped w @ rs \<and>
              mset rs = mset (map (\<lambda>c. (cpid c, wait_status c)) (children w))))"
proof (induction w rule: task2_reap.induct)
  case (1 w)
  obtain r w1 where ow: "os_wait w = (r, w1)"
    by (cases "os_wait w")
  show ?case
  proof (cases r)
    case (Delivered p st)
    let ?w2 = "py_print [S ''[Parent] waited pid='', I p, S '' status='', I st] w1"
    from ow Delivered obtain c where c: "c \<in> set (children w)" "terminates c" "p = cpid c"
      "st = wait_status c" "\<not> sigchld_ign w"
      "w1 = w\<lparr>children := remove1 c (children w), sched := tl (sched w),
             reaped := reaped w @ [(cpid c, wait_status c)]\<rparr>"
      by (auto elim: os_wait_Delivered)
    have eq: "task2_reap w = task2_reap ?w2"
      by (subst task2_reap.simps) (simp add: ow Delivered)
    have ih: "case task2_reap ?w2 of (fin, w') \<Rightarrow>
       fin = (if list_all terminates (children ?w2) then Returned else Hung) \<and>
       forked w' = forked ?w2 \<and>
       (fin = Returned \<longrightarrow> children w' = []) \<and>
       (\<not> sigchld_ign ?w2 \<longrightarrow> fin = Returned \<longrightarrow>
          (\<exists>rs. reaped w' = reaped ?w2 @ rs \<and>
                mset rs = mset (map (\<lambda>c. (cpid c, wait_status c)) (children ?w2))))"
      using "1.IH" [of r w1 p st] ow Delivered by simp
    have ch: "children ?w2 = remove1 c (children w)" "forked ?w2 = forked w"
      "reaped ?w2 = reaped w @ [(cpid c, wait_status c)]" "sigchld_ign ?w2 = sigchld_ign w"
      by (simp_all add: c(6) py_print_def)
    have la: "list_all terminates (children ?w2) = list_all terminates (children w)"
      unfolding ch using c(1,2) by (rule list_all_remove1 [of c "children w" terminates])
    obtain fin w' where res: "task2_reap ?w2 = (fin, w')"
      by (cases "task2_reap ?w2")
    have "\<exists>rs. reaped w' = reaped w @ rs \<and>
              mset rs = mset (map (\<lambda>c. (cpid c, wait_status c)) (children w))"
      if "fin = Returned"
    proof -
      from ih res that c(5) ch obtain rs where rs: "reaped w' = (reaped w @ [(cpid c, wait_status c)]) @ rs"
        "mset rs = mset (map (\<lambda>c. (cpid c, wait_status c)) (remove1 c (children w)))"
        by auto
      have "mset ((cpid c, wait_status c) # rs) = mset (map (\<lambda>c. (cpid c, wait_status c)) (children w))"
        using rs(2) mset_map_remove1 [OF c(1), of "\<lambda>c. (cpid c, wait_status c)"] by simp
      with rs(1) show ?thesis
        by (intro exI [of _ "(cpid c, wait_status c) # rs"]) simp
    qed
    with ih res la ch show ?thesis
      unfolding eq by simp
  next
    case (Raised e)
    from os_wait_Raised [OF ow [unfolded Raised]] ow Raised show ?thesis
      by (subst task2_reap.simps) (simp add: os_wait_def Let_def split: if_splits)
  next
    case Blocked
    from os_wait_Blocked [OF ow [unfolded Blocked]] ow Blocked show ?thesis
      by (subst task2_reap.simps) simp
  qed
qed


lemma task5_reap_sum:
  "case task5_reap order w of (order', fin, w') \<Rightarrow>
     fin = (if list_all terminates (children w) then Returned else Hung) \<and>
     forked w' = forked w \<and>
     (fin = Returned \<longrightarrow> children w' = []) \<and>
     (\<not> sigchld_ign w \<longrightarrow> fin = Returned \<longrightarrow>
        (\<exists>rs. reaped w' = reaped w @ rs \<and> order' = order @ map fst rs \<and>
              mset rs = mset (map (\<lambda>c. (cpid c, wait_status c)) (children w))))"
proof (induction order w rule: task5_reap.induct)
  case (1 order w)
  obtain r w1 where ow: "os_wait w = (r, w1)"
    by (cases "os_wait w")
  show ?case
  proof (cases r)
    case (Delivered p st)
    let ?w2 = "py_print [S ''[Parent] Child finished: pid='', I p, S '' status='', I st] w1"
    from ow Delivered obtain c where c: "c \<in> set (children w)" "terminates c" "p = cpid c"
      "st = wait_status c" "\<not> sigchld_ign w"
      "w1 = w\<lparr>children := remove1 c (children w), sched := tl (sched w),
             reaped := reaped w @ [(cpid c, wait_status c)]\<rparr>"
      by (auto elim: os_wait_Delivered)
    have eq: "task5_reap order w = task5_reap (order @ [p]) ?w2"
      by (subst task5_reap.simps) (simp add: ow Delivered)
    have ih: "case task5_reap (order @ [p]) ?w2 of (order', fin, w') \<Rightarrow>
       fin = (if list_all terminates (children ?w2) then Returned else Hung) \<and>
       forked w' = forked ?w2 \<and>
       (fin = Returned \<longrightarrow> children w' = []) \<and>
       (\<not> sigchld_ign ?w2 \<longrightarrow> fin = Returned \<longrightarrow>
          (\<exists>rs. reaped w' = reaped ?w2 @ rs \<and> order' = (order @ [p]) @ map fst rs \<and>
                mset rs = mset (map (\<lambda>c. (cpid c, wait_status c)) (children ?w2))))"
      using "1.IH" [of r w1 p st] ow Delivered by simp
    have ch: "children ?w2 = remove1 c (children w)" "forked ?w2 = forked w"
      "reaped ?w2 = reaped w @ [(cpid c, wait_status c)]" "sigchld_ign ?w2 = sigchld_ign w"
      by (simp_all add: c(6) py_print_def)
    have la: "list_all terminates (children ?w2) = list_all terminates (children w)"
      unfolding ch using c(1,2) by (rule list_all_remove1 [of c "children w" terminates])
    obtain order' fin w' where res: "task5_reap (order @ [p]) ?w2 = (order', fin, w')"
      by (cases "task5_reap (order @ [p]) ?w2")
    have "\<exists>rs. reaped w' = reaped w @ rs \<and> order' = order @ map fst rs \<and>
              mset rs = mset (map (\<lambda>c. (cpid c, wait_status c)) (children w))"
      if "fin = Returned"
    proof -
      from ih res that c(5) ch obtain rs where rs: "reaped w' = (reaped w @ [(cpid c, wait_status c)]) @ rs"
        "order' = (order @ [p]) @ map fst rs"
        "mset rs = mset (map (\<lambda>c. (cpid c, wait_status c)) (remove1 c (children w)))"
        by auto
      have "mset ((cpid c, wait_status c) # rs) = mset (map (\<lambda>c. (cpid c, wait_status c)) (children w))"
        using rs(3) mset_map_remove1 [OF c(1), of "\<lambda>c. (cpid c, wait_status c)"] by simp
      with rs(1,2) c(3) show ?thesis
        by (intro exI [of _ "(cpid c, wait_status c) # rs"]) simp
    qed
    with ih res la ch show ?thesis
      unfolding eq by simp
  next
    case (Raised e)
    from os_wait_Raised [OF ow [unfolded Raised]] ow Raised show ?thesis
      by (subst task5_reap.simps) (simp add: os_wait_def Let_def split: if_splits)
  next
    case Blocked
    from os_wait_Blocked [OF ow [unfolded Blocked]] ow Blocked show ?thesis
      by (subst task5_reap.simps) simp
  qed
qed

lemma task1_reap_drains:
  assumes "\<not> sigchld_ign w" and "list_all terminates (children w)"
    and "length chs = length (children w)"
  shows "\<exists>rs w'. task1_reap chs w = (Returned, w') \<and> forked w' = forked w \<and> children w' = [] \<and>
            reaped w' = reaped w @ rs \<and>
            mset rs = mset (map (\<lambda>c. (cpid c, wait_status c)) (children w))"
  using assms
proof (induction chs arbitrary: w)
  case Nil
  then show ?case by simp
next
  case (Cons x chs)
  from Cons.prems(3) have ne: "children w \<noteq> []" by auto
  from Cons.prems(1,2) ne obtain c where c: "c \<in> set (children w)"
    "os_wait w = (Delivered (cpid c) (wait_status c),
       w\<lparr>children := remove1 c (children w), sched := tl (sched w),
         reaped := reaped w @ [(cpid c, wait_status c)]\<rparr>)"
    by (rule os_wait_step)
  let ?w1 = "w\<lparr>children := remove1 c (children w), sched := tl (sched w),
         reaped := reaped w @ [(cpid c, wait_status c)]\<rparr>"
  let ?w2 = "py_print [S ''[Parent] wait() returned pid='', I (cpid c), S '' status='', I (wait_status c)] ?w1"
  have ch: "children ?w2 = remove1 c (children w)" "forked ?w2 = forked w"
      "reaped ?w2 = reaped w @ [(cpid c, wait_status c)]" "sigchld_ign ?w2 = sigchld_ign w"
    by (simp_all add: py_print_def)
  from Cons.prems(2) c(1) have tc: "terminates c" by (simp add: list_all_iff)
  have la: "list_all terminates (children ?w2)"
    unfolding ch using list_all_remove1 [of c "children w" terminates] c(1) tc Cons.prems(2) by simp
  have len: "length chs = length (children ?w2)"
    unfolding ch using Cons.prems(3) c(1) by (simp add: length_remove1)
  from Cons.IH [OF _ la len] Cons.prems(1) ch obtain rs w' where r:
    "task1_reap chs ?w2 = (Returned, w')" "forked w' = forked w" "children w' = []"
    "reaped w' = (reaped w @ [(cpid c, wait_status c)]) @ rs"
    "mset rs = mset (map (\<lambda>c. (cpid c, wait_status c)) (remove1 c (children w)))"
    by auto
  have "mset ((cpid c, wait_status c) # rs) = mset (map (\<lambda>c. (cpid c, wait_status c)) (children w))"
    using r(5) mset_map_remove1 [OF c(1), of "\<lambda>c. (cpid c, wait_status c)"] by simp
  moreover have "task1_reap (x # chs) w = (Returned, w')"
    using c(2) r(1) by simp
  ultimately show ?case using r(2,3,4)
    by (intro exI [of _ "(cpid c, wait_status c) # rs"] exI [of _ w']) simp
qed

lemma task1_reap_not_Exited: "fst (task1_reap chs w) \<noteq> Exited k"
proof (induction chs arbitrary: w)
  case Nil
  show ?case by simp
next
  case (Cons x chs)
  show ?case
    by (cases "os_wait w") (auto split: wait_result.splits simp: Cons.IH)
qed

subsection \<open>The busy work\<close>


lemma py_range_Suc: "py_range (int (Suc m)) = py_range (int m) @ [int m]"
proof -
  have "[0..int m] = [0..int m - 1] @ [int m]"
    by (rule upto_rec2) simp
  then show ?thesis
    by (simp add: py_range_def)
qed

lemma busy_work_nat: "busy_work (int m) = int m div 2"
proof (induction m)
  case 0
  show ?case by (simp add: busy_work_def py_range_def)
next
  case (Suc m)
  have "busy_work (int (Suc m)) = busy_work (int m) + (int m AND 1)"
    unfolding busy_work_def py_range_Suc by simp
  also have "\<dots> = int m div 2 + int m mod 2"
    by (simp add: Suc.IH and_one_eq)
  also have "\<dots> = int (Suc m) div 2"
    by simp presburger
  finally show ?case .
qed

text \<open>
  C9. For every iteration count \<open>iterations \<ge> 0\<close> the loop of a task 5 child
  leaves \<open>s = iterations // 2\<close>, and this is the result the child prints in its last
  line: it depends on the iteration count alone, whatever the niceness hint.
\<close>

theorem busy_work_half:
  "0 \<le> iterations \<Longrightarrow>
     busy_work iterations = iterations div 2 \<and>
     last (fst (task5_child iterations niceval p w)) =
       [S ''[Child] PID='', I p, S '' nice='', I niceval, S '' finished work. result='',
        I (iterations div 2)]"
  using busy_work_nat [of "nat iterations"] by (simp add: task5_child_def)

theorem busy_work_half_witness:
  "(0::int) \<le> 2000000 \<and> busy_work 2000000 = 1000000 \<and>
   last (fst (task5_child 2000000 10 103 world0)) =
       [S ''[Child] PID='', I 103, S '' nice='', I 10, S '' finished work. result='', I 1000000]"
  using busy_work_half [of 2000000 10 103 world0] by simp

subsection \<open>Task 1\<close>

lemma length_py_range: "length (py_range n) = nat n"
  by (simp add: py_range_def)

lemma grown_new: "grown w cs w' \<Longrightarrow> forked w' = forked w @ cs"
  by (simp add: grown_def)

lemma task1_run:
  assumes "fresh w"
  shows "\<exists>cs rs w2.
     task1_create_children n w = (Returned, py_print [S ''[Task 1] All children reaped.''] w2) \<and>
     forked w2 = forked w @ cs \<and> length cs = nat n \<and> distinct (map cpid cs) \<and>
     list_all (\<lambda>c. cend c = Exited 0) cs \<and>
     reaped w2 = reaped w @ rs \<and>
     mset rs = mset (map (\<lambda>c. (cpid c, wait_status c)) cs) \<and> children w2 = []"
proof -
  let ?w0 = "py_print [S ''[Task 1] Parent PID: '', I (pid_self w), S '', creating '', I n, S '' children''] w"
  obtain chs w1 where sp: "task1_spawn (py_range n) [] ?w0 = (chs, w1)"
    by (cases "task1_spawn (py_range n) [] ?w0")
  from task1_spawn_grown [OF sp] obtain cs where cs: "grown ?w0 cs w1" "chs = map cpid cs"
    "length cs = nat n" "list_all (\<lambda>c. cend c = Exited 0) cs"
    by (auto simp: length_py_range)
  from cs(1) assms have w1: "children w1 = cs" "forked w1 = forked w @ cs" "reaped w1 = reaped w"
    "\<not> sigchld_ign w1"
    by (simp_all add: grown_def fresh_def py_print_def)
  from cs(4) have tm: "list_all terminates (children w1)"
    by (simp add: w1 list_all_iff terminates_def)
  have len: "length chs = length (children w1)"
    by (simp add: cs(2) w1)
  from task1_reap_drains [OF w1(4) tm len] obtain rs w2 where r:
    "task1_reap chs w1 = (Returned, w2)" "forked w2 = forked w1" "children w2 = []"
    "reaped w2 = reaped w1 @ rs" "mset rs = mset (map (\<lambda>c. (cpid c, wait_status c)) (children w1))"
    by blast
  have "task1_create_children n w = (Returned, py_print [S ''[Task 1] All children reaped.''] w2)"
    by (simp add: task1_create_children_def Let_def sp r(1))
  with r w1 cs grown_distinct [OF cs(1)] show ?thesis
    by (intro exI [of _ cs] exI [of _ rs] exI [of _ w2]) simp
qed

lemma mset_fst_reaped:
  "mset rs = mset (map (\<lambda>c. (cpid c, wait_status c)) cs) \<Longrightarrow>
     mset (map fst rs) = mset (map cpid cs) \<and> length rs = length cs"
proof -
  assume a: "mset rs = mset (map (\<lambda>c. (cpid c, wait_status c)) cs)"
  then have "image_mset fst (mset rs) = image_mset fst (mset (map (\<lambda>c. (cpid c, wait_status c)) cs))"
    by simp
  then have "mset (map fst rs) = mset (map cpid cs)"
    by (simp add: multiset.map_comp comp_def)
  moreover from a have "length rs = length cs"
    using mset_eq_length by fastforce
  ultimately show ?thesis by simp
qed

subsection \<open>Task 5\<close>

lemma task5_spawn_grown:
  "task5_spawn it hints chs w = (chs', w') \<Longrightarrow>
     \<exists>cs. grown w cs w' \<and> chs' = chs @ map cpid cs \<and> map cnice cs = map Some hints \<and>
          list_all (\<lambda>c. cend c = Exited 0) cs"
proof (induction hints arbitrary: chs w)
  case Nil
  then show ?case by (auto intro: grown_refl)
next
  case (Cons h hints)
  obtain p w1 where f: "os_fork (task5_child it h) w = (p, w1)"
    by (cases "os_fork (task5_child it h) w")
  let ?c = "\<lparr>cpid = p, cout = fst (task5_child it h p w), cend = fst (snd (task5_child it h p w)),
            cnice = snd (snd (task5_child it h p w))\<rparr>"
  let ?w2 = "py_print [S ''[Parent] spawned child '', I p, S '' with target nice='', I h] w1"
  have g1: "grown w [?c] ?w2"
    using grown_fork(2) [OF f] by (rule grown_print)
  from Cons.prems f have "task5_spawn it hints (chs @ [p]) ?w2 = (chs', w')"
    by simp
  from Cons.IH [OF this] obtain cs where cs: "grown ?w2 cs w'" "chs' = (chs @ [p]) @ map cpid cs"
    "map cnice cs = map Some hints" "list_all (\<lambda>c. cend c = Exited 0) cs"
    by blast
  have "grown w (?c # cs) w'"
    using grown_trans [OF g1 cs(1)] by simp
  moreover have "cend ?c = Exited 0" "cnice ?c = Some h" by (simp_all add: task5_child_def)
  ultimately show ?case using cs by (intro exI [of _ "?c # cs"]) simp
qed

lemma task5_run:
  assumes "list_all terminates (children w)"
  shows "\<exists>cs order w2.
     task5_priority n it w =
       (Returned, py_print [S ''[Task 5] Finish order (PIDs):'', S '' '', IL order] w2) \<and>
     children w2 = [] \<and> forked w2 = forked w @ cs \<and>
     map cnice cs = map Some (py_slice_to nicelist n) \<and> distinct (map cpid cs) \<and>
     (\<not> sigchld_ign w \<longrightarrow>
        (\<exists>rs. reaped w2 = reaped w @ rs \<and> order = map fst rs \<and>
              mset rs = mset (map (\<lambda>c. (cpid c, wait_status c)) (children w @ cs))))"
proof -
  let ?w0 = "py_print [S ''[Task 5] Spawning '', I n, S '' CPU-bound children with different nice values.''] w"
  obtain chs w1 where sp: "task5_spawn it (py_slice_to nicelist n) [] ?w0 = (chs, w1)"
    by (cases "task5_spawn it (py_slice_to nicelist n) [] ?w0")
  from task5_spawn_grown [OF sp] obtain cs where cs: "grown ?w0 cs w1"
    "map cnice cs = map Some (py_slice_to nicelist n)" "list_all (\<lambda>c. cend c = Exited 0) cs"
    by auto
  from cs(1) have w1: "children w1 = children w @ cs" "forked w1 = forked w @ cs"
    "reaped w1 = reaped w" "sigchld_ign w1 = sigchld_ign w"
    by (simp_all add: grown_def py_print_def)
  from cs(3) assms have tm: "list_all terminates (children w1)"
    by (auto simp: w1 list_all_iff terminates_def)
  obtain order fin w2 where rp: "task5_reap [] w1 = (order, fin, w2)"
    by (cases "task5_reap [] w1")
  from task5_reap_sum [where order = "[]" and w = w1] rp tm have r: "fin = Returned" "forked w2 = forked w1"
    "children w2 = []"
    "\<not> sigchld_ign w1 \<longrightarrow> (\<exists>rs. reaped w2 = reaped w1 @ rs \<and> order = map fst rs \<and>
        mset rs = mset (map (\<lambda>c. (cpid c, wait_status c)) (children w1)))"
    by simp_all
  have "task5_priority n it w =
       (Returned, py_print [S ''[Task 5] Finish order (PIDs):'', S '' '', IL order] w2)"
    by (simp add: task5_priority_def Let_def sp rp r(1))
  with r w1 cs grown_distinct [OF cs(1)] show ?thesis
    by (intro exI [of _ cs] exI [of _ order] exI [of _ w2]) simp
qed

lemma py_slice_to_nonneg: "0 \<le> n \<Longrightarrow> py_slice_to xs n = take (nat n) xs"
  by (simp add: py_slice_to_def)

subsection \<open>Task 2\<close>

lemma task2_child_env:
  assumes "pid_self v = pid_self w" and "execvp_env v = execvp_env w" and "run_env v = run_env w"
  shows "task2_child ue argv i p v = task2_child ue argv i p w"
  unfolding task2_child_def assms by (rule refl)

lemma task2_spawn_grown:
  "task2_spawn ue argv js w = w' \<Longrightarrow>
     \<exists>cs. grown w cs w' \<and>
          list_all2 (\<lambda>i c. (cout c, cend c, cnice c) = task2_child ue argv i (cpid c) w) js cs"
proof (induction js arbitrary: w)
  case Nil
  then show ?case by (auto intro: grown_refl)
next
  case (Cons i js)
  obtain p w1 where f: "os_fork (task2_child ue argv i) w = (p, w1)"
    by (cases "os_fork (task2_child ue argv i) w")
  let ?c = "\<lparr>cpid = p, cout = fst (task2_child ue argv i p w),
            cend = fst (snd (task2_child ue argv i p w)),
            cnice = snd (snd (task2_child ue argv i p w))\<rparr>"
  let ?w2 = "py_print [S ''[Parent] spawned child PID='', I p, S '' for command''] w1"
  have g1: "grown w [?c] ?w2"
    using grown_fork(2) [OF f] by (rule grown_print)
  from Cons.prems f have "task2_spawn ue argv js ?w2 = w'"
    by simp
  from Cons.IH [OF this] obtain cs where cs: "grown ?w2 cs w'"
    "list_all2 (\<lambda>i c. (cout c, cend c, cnice c) = task2_child ue argv i (cpid c) ?w2) js cs"
    by blast
  from f have env: "pid_self ?w2 = pid_self w" "execvp_env ?w2 = execvp_env w"
    "run_env ?w2 = run_env w"
    by (auto simp: os_fork_def Let_def py_print_def split: prod.splits)
  have "list_all2 (\<lambda>i c. (cout c, cend c, cnice c) = task2_child ue argv i (cpid c) w) js cs"
    using cs(2) by (simp add: task2_child_env [OF env])
  moreover have "(cout ?c, cend ?c, cnice ?c) = task2_child ue argv i (cpid ?c) w"
    by simp
  moreover have "grown w (?c # cs) w'"
    using grown_trans [OF g1 cs(1)] by simp
  ultimately show ?case
    by (intro exI [of _ "?c # cs"]) simp
qed

lemma task2_child_Hung:
  "fst (snd (task2_child ue argv i p w)) = Hung \<longleftrightarrow> \<not> task2_child_ends ue argv w"
  by (auto simp: task2_child_def task2_child_ends_def Let_def
           split: list.splits exec_result.splits option.splits sum.splits if_splits)

lemma list_all2_map_eq: "list_all2 (\<lambda>i c. f c = g i) js cs \<Longrightarrow> map f cs = map g js"
  by (induction rule: list_all2_induct) auto

lemma task2_run:
  assumes "list_all terminates (children w)" and "shlex_split cmd = Inr argv"
    and "task2_child_ends ue argv w"
  shows "\<exists>cs w2.
     task2_exec_children n cmd ue w =
       (Returned, py_print [S ''[Task 2] All children finished.''] w2) \<and>
     children w2 = [] \<and> forked w2 = forked w @ cs \<and> distinct (map cpid cs) \<and>
     list_all2 (\<lambda>i c. (cout c, cend c, cnice c) = task2_child ue argv i (cpid c) w) (py_range n) cs \<and>
     (\<not> sigchld_ign w \<longrightarrow>
        (\<exists>rs. reaped w2 = reaped w @ rs \<and>
              mset rs = mset (map (\<lambda>c. (cpid c, wait_status c)) (children w @ cs))))"
proof -
  let ?w0 = "py_print [S ''[Task 2] Parent PID='', I (pid_self w), S '', running '', I n,
                       S '' children each executing: '', SL argv] w"
  let ?w1 = "task2_spawn ue argv (py_range n) ?w0"
  have env: "pid_self ?w0 = pid_self w" "execvp_env ?w0 = execvp_env w" "run_env ?w0 = run_env w"
    by (simp_all add: py_print_def)
  from task2_spawn_grown [OF refl, where ue = ue and argv = argv and js = "py_range n" and w = ?w0] obtain cs where cs:
    "grown ?w0 cs ?w1"
    "list_all2 (\<lambda>i c. (cout c, cend c, cnice c) = task2_child ue argv i (cpid c) w) (py_range n) cs"
    by (auto simp: task2_child_env [OF env])
  from cs(1) have w1: "children ?w1 = children w @ cs" "forked ?w1 = forked w @ cs"
    "reaped ?w1 = reaped w" "sigchld_ign ?w1 = sigchld_ign w"
    by (simp_all add: grown_def py_print_def)
  have "list_all2 (\<lambda>i c. terminates c) (py_range n) cs"
    using cs(2)
  proof (rule list_all2_mono)
    fix i and c :: child
    assume "(cout c, cend c, cnice c) = task2_child ue argv i (cpid c) w"
    then have "cend c = fst (snd (task2_child ue argv i (cpid c) w))"
      by (metis fst_conv snd_conv)
    with assms(3) show "terminates c"
      using task2_child_Hung [of ue argv i "cpid c" w] by (simp add: terminates_def)
  qed
  then have "list_all terminates cs"
    by (induction rule: list_all2_induct) auto
  with assms(1) have tm: "list_all terminates (children ?w1)"
    by (auto simp: w1 list_all_iff)
  obtain fin w2 where rp: "task2_reap ?w1 = (fin, w2)"
    by (cases "task2_reap ?w1")
  from task2_reap_sum [of ?w1] rp tm have r: "fin = Returned" "forked w2 = forked ?w1"
    "children w2 = []"
    "\<not> sigchld_ign ?w1 \<longrightarrow> (\<exists>rs. reaped w2 = reaped ?w1 @ rs \<and>
        mset rs = mset (map (\<lambda>c. (cpid c, wait_status c)) (children ?w1)))"
    by simp_all
  have "task2_exec_children n cmd ue w =
       (Returned, py_print [S ''[Task 2] All children finished.''] w2)"
    by (simp add: task2_exec_children_def Let_def assms(2) rp r(1))
  with r w1 cs grown_distinct [OF cs(1)] show ?thesis
    by (intro exI [of _ cs] exI [of _ w2]) simp
qed

subsection \<open>Task 4\<close>

text \<open>
  C5. When \<open>/proc/<pid>\<close> does not exist the inspector prints its heading and the
  report, returns normally and changes nothing else in the world; a second call on the
  resulting world does exactly the same.
\<close>

theorem task4_missing_proc:
  assumes "procfs w pid = None"
  shows "task4_inspect pid w =
           (Returned,
            w\<lparr>stdout := stdout w @
               [[S ''[Task 4] Inspecting PID '', I pid],
                [S ''[Task 4] /proc/'', I pid,
                 S '' does not exist. Process may not be running or you lack permission.'']]\<rparr>) \<and>
         (case task4_inspect pid w of
            (fin, w1) \<Rightarrow>
              task4_inspect pid w1 =
                (fin,
                 w1\<lparr>stdout := stdout w1 @
                    [[S ''[Task 4] Inspecting PID '', I pid],
                     [S ''[Task 4] /proc/'', I pid,
                      S '' does not exist. Process may not be running or you lack permission.'']]\<rparr>))"
  using assms by (simp add: task4_inspect_def py_print_def Let_def)

theorem task4_missing_proc_witness:
  "procfs world0 7 = None \<and>
   task4_inspect 7 world0 =
           (Returned,
            world0\<lparr>stdout := stdout world0 @
               [[S ''[Task 4] Inspecting PID '', I 7],
                [S ''[Task 4] /proc/'', I 7,
                 S '' does not exist. Process may not be running or you lack permission.'']]\<rparr>) \<and>
         (case task4_inspect 7 world0 of
            (fin, w1) \<Rightarrow>
              task4_inspect 7 w1 =
                (fin,
                 w1\<lparr>stdout := stdout w1 @
                    [[S ''[Task 4] Inspecting PID '', I 7],
                     [S ''[Task 4] /proc/'', I 7,
                      S '' does not exist. Process may not be running or you lack permission.'']]\<rparr>))"
proof -
  have h: "procfs world0 7 = None" by (simp add: world0_def)
  show ?thesis by (rule conjI [OF h task4_missing_proc [OF h]])
qed

lemma fold_print_map: "fold (\<lambda>x. py_print (f x)) xs w = w\<lparr>stdout := stdout w @ map f xs\<rparr>"
  by (induction xs arbitrary: w) (simp_all add: py_print_def)

lemma fold_print_filter:
  "fold (\<lambda>x v. if P x then py_print (f x) v else v) xs w =
     w\<lparr>stdout := stdout w @ map f (filter P xs)\<rparr>"
  by (induction xs arbitrary: w) (simp_all add: py_print_def)

lemma read_status_report:
  "read_status pe w = w\<lparr>stdout := stdout w @ status_report (status_lines pe) (status_err pe)\<rparr>"
  by (simp add: read_status_def status_report_def fold_print_filter Let_def py_print_def
           split: option.splits)

lemma read_exe_report: "read_exe pe w = w\<lparr>stdout := stdout w @ exe_report (exe_link pe)\<rparr>"
  by (simp add: read_exe_def exe_report_def py_print_def split: sum.splits)

lemma read_fds_report: "read_fds pe w = w\<lparr>stdout := stdout w @ fd_report (fd_dir pe)\<rparr>"
proof (cases "fd_dir pe")
  case (Inl e)
  then show ?thesis by (simp add: read_fds_def fd_report_def py_print_def)
next
  case (Inr fds)
  have "(\<lambda>(name, link) v. case link of Inr target \<Rightarrow> py_print [S name, S '' -> '', S target] v
            | Inl e \<Rightarrow> py_print [S name, S '' -> (unreadable) '', E e] v)
        = (\<lambda>x. py_print (fd_line x))"
    by (auto simp: fun_eq_iff fd_line_def split: sum.splits)
  with Inr show ?thesis
    by (simp add: read_fds_def fd_report_def fold_print_map py_print_def)
qed

text \<open>
  C6. When \<open>/proc/<pid>\<close> exists the inspector always returns normally, and what it
  prints is the heading followed by the report of the status read, the report of the
  \<open>exe\<close> link and the report of the descriptor listing, each a function of its own
  sub-read alone: whatever combination of the three fails, every one of them is
  attempted and a failed one leaves its own report line.
\<close>

theorem task4_subreads_independent:
  assumes "procfs w pid = Some pe"
  shows "case task4_inspect pid w of (fin, w') \<Rightarrow>
           fin = Returned \<and>
           w' = w\<lparr>stdout := stdout w @
                  [[S ''[Task 4] Inspecting PID '', I pid], [S (nl # ''-- status --'')]] @
                  status_report (status_lines pe) (status_err pe) @
                  exe_report (exe_link pe) @
                  fd_report (fd_dir pe)\<rparr> \<and>
           (\<forall>e. status_err pe = Some e \<longrightarrow>
                [S ''Error reading status:'', S '' '', E e] \<in> set (stdout w')) \<and>
           (\<forall>e. exe_link pe = Inl e \<longrightarrow>
                [S (nl # ''-- exe not readable:''), S '' '', E e] \<in> set (stdout w')) \<and>
           (\<forall>e. fd_dir pe = Inl e \<longrightarrow>
                [S (nl # ''-- fd not accessible:''), S '' '', E e] \<in> set (stdout w')) \<and>
           (\<forall>fds name e. fd_dir pe = Inr fds \<longrightarrow> (name, Inl e) \<in> set fds \<longrightarrow>
                [S name, S '' -> (unreadable) '', E e] \<in> set (stdout w'))"
proof -
  have run: "task4_inspect pid w =
     (Returned,
      w\<lparr>stdout := stdout w @
                  [[S ''[Task 4] Inspecting PID '', I pid], [S (nl # ''-- status --'')]] @
                  status_report (status_lines pe) (status_err pe) @
                  exe_report (exe_link pe) @
                  fd_report (fd_dir pe)\<rparr>)"
    using assms
    by (simp add: task4_inspect_def Let_def read_status_report read_exe_report read_fds_report
             py_print_def)
  have fdl: "[S name, S '' -> (unreadable) '', E e] \<in> set (fd_report (Inr fds))"
    if "(name, Inl e) \<in> set fds" for fds name e
  proof -
    have "fd_line (name, Inl e) \<in> set (map fd_line fds)"
      using that by (simp add: image_iff) blast
    then show ?thesis by (simp add: fd_report_def fd_line_def)
  qed
  have m1: "[S ''Error reading status:'', S '' '', E e] \<in> set (status_report ls (Some e))"
    for ls e
    by (simp add: status_report_def)
  have m2: "[S (nl # ''-- exe not readable:''), S '' '', E e] \<in> set (exe_report (Inl e))" for e
    by (simp add: exe_report_def)
  have m3: "[S (nl # ''-- fd not accessible:''), S '' '', E e] \<in> set (fd_report (Inl e))" for e
    by (simp add: fd_report_def)
  show ?thesis
    unfolding run prod.case
    by (auto simp: m1 m2 m3 fdl)
qed

theorem task4_subreads_independent_witness:
  "procfs world7 7 = Some unreadable_entry \<and>
   task4_inspect 7 world7 =
     (Returned,
      world7\<lparr>stdout :=
        [[S ''[Task 4] Inspecting PID '', I 7], [S (nl # ''-- status --'')],
         [S ''Error reading status:'', S '' '', E (OtherError ''EACCES'')],
         [S (nl # ''-- exe not readable:''), S '' '', E (OtherError ''EACCES'')],
         [S (nl # ''-- fd not accessible:''), S '' '', E (OtherError ''EACCES'')]]\<rparr>)"
proof -
  have h: "procfs world7 7 = Some unreadable_entry" by (simp add: world7_def)
  have s: "stdout world7 = []" by (simp add: world7_def world0_def)
  from task4_subreads_independent [OF h] h s show ?thesis
    by (simp add: status_report_def exe_report_def fd_report_def unreadable_entry_def
             split: prod.splits)
qed

subsection \<open>How the tasks end\<close>

lemma task1_not_Exited: "fst (task1_create_children n w) \<noteq> Exited k"
proof -
  let ?w0 = "py_print [S ''[Task 1] Parent PID: '', I (pid_self w), S '', creating '', I n, S '' children''] w"
  obtain chs w1 where sp: "task1_spawn (py_range n) [] ?w0 = (chs, w1)"
    by (cases "task1_spawn (py_range n) [] ?w0")
  obtain fin w2 where rp: "task1_reap chs w1 = (fin, w2)"
    by (cases "task1_reap chs w1")
  from task1_reap_not_Exited [of chs w1 k] rp have "fin \<noteq> Exited k" by simp
  then show ?thesis
    by (cases fin) (simp_all add: task1_create_children_def Let_def sp rp)
qed

lemma task2_reap_fin: "fst (task2_reap w) = (if list_all terminates (children w) then Returned else Hung)"
  using task2_reap_sum [of w] by (simp split: prod.splits)

lemma task5_reap_fin:
  "fst (snd (task5_reap order w)) = (if list_all terminates (children w) then Returned else Hung)"
  using task5_reap_sum [where order = order and w = w] by (simp split: prod.splits)

lemma task2_not_Exited: "fst (task2_exec_children n cmd ue w) \<noteq> Exited k"
proof (cases "shlex_split cmd")
  case (Inl e)
  then show ?thesis by (simp add: task2_exec_children_def)
next
  case (Inr argv)
  let ?w1 = "task2_spawn ue argv (py_range n)
     (py_print [S ''[Task 2] Parent PID='', I (pid_self w), S '', running '', I n,
                S '' children each executing: '', SL argv] w)"
  obtain fin w2 where rp: "task2_reap ?w1 = (fin, w2)"
    by (cases "task2_reap ?w1")
  from task2_reap_fin [of ?w1] rp have "fin = Returned \<or> fin = Hung"
    by (simp split: if_splits)
  then show ?thesis
    by (auto simp: task2_exec_children_def Let_def Inr rp)
qed

lemma task5_not_Exited: "fst (task5_priority n it w) \<noteq> Exited k"
proof -
  let ?w0 = "py_print [S ''[Task 5] Spawning '', I n, S '' CPU-bound children with different nice values.''] w"
  obtain chs w1 where sp: "task5_spawn it (py_slice_to nicelist n) [] ?w0 = (chs, w1)"
    by (cases "task5_spawn it (py_slice_to nicelist n) [] ?w0")
  obtain order fin w2 where rp: "task5_reap [] w1 = (order, fin, w2)"
    by (cases "task5_reap [] w1")
  from task5_reap_fin [of "[]" w1] rp have "fin = Returned \<or> fin = Hung"
    by (simp split: if_splits)
  then show ?thesis
    by (auto simp: task5_priority_def Let_def sp rp)
qed

lemma task3_zombie_not_Exited: "fst (task3_zombie_demo w) \<noteq> Exited k"
  by (simp add: task3_zombie_demo_def Let_def split: prod.splits sum.splits wait_result.splits)

lemma task3_zombie_run:
  assumes "fresh w" and "ps_el w = Inr out"
  shows "fst (task3_zombie_demo w) = Returned"
  using assms
  by (auto simp: task3_zombie_demo_def Let_def os_fork_def fresh_def py_print_def os_wait_def
                 fold_print_map terminates_def
           split: prod.splits sum.splits wait_result.splits if_splits)


lemma task4_Returned: "fst (task4_inspect pid w) = Returned"
  by (simp add: task4_inspect_def Let_def split: option.splits)

lemma task3_orphan_Exited: "fst (task3_orphan_demo sl w) = Exited 0"
  by (simp add: task3_orphan_demo_def Let_def split: prod.splits)

lemma main_not_linux:
  "platform_system w \<noteq> ''Linux'' \<Longrightarrow>
     main a w = (Exited 1, py_print [S ''WARNING: This script requires Linux (os.fork and /proc). Exiting.''] w)"
  by (simp add: main_def ensure_linux_def)

lemma main_task4_no_pid:
  "platform_system w = ''Linux'' \<Longrightarrow> arg_task a = ''4'' \<Longrightarrow> py_not (arg_pid a) \<Longrightarrow>
     main a w = (Exited 1, py_print [S ''Please provide --pid <pid> for task 4''] w)"
  by (simp add: main_def ensure_linux_def)

lemma py_not_iff: "py_not v \<longleftrightarrow> v = None \<or> v = Some 0"
  by (simp add: py_not_def split: option.splits)

lemma main_Exited_1:
  "fst (main a w) = Exited 1 \<longleftrightarrow>
     platform_system w \<noteq> ''Linux'' \<or> (arg_task a = ''4'' \<and> py_not (arg_pid a))"
proof (cases "platform_system w = ''Linux''")
  case False
  then show ?thesis by (simp add: main_not_linux)
next
  case True
  then show ?thesis
    by (simp add: main_def ensure_linux_def task1_not_Exited task2_not_Exited
          task3_zombie_not_Exited task3_orphan_Exited task4_Returned task5_not_Exited)
qed

lemma main_completes:
  assumes "platform_system w = ''Linux''" and "fresh w"
    and "\<not> (arg_task a = ''4'' \<and> py_not (arg_pid a))"
    and "arg_task a = ''2'' \<longrightarrow>
           (\<exists>argv. shlex_split (arg_cmd a) = Inr argv \<and> task2_child_ends True argv w)"
    and "arg_task a = ''3z'' \<longrightarrow> (\<exists>out. ps_el w = Inr out)"
  shows "exit_code (fst (main a w)) = Some 0"
proof -
  from assms(2) have la: "list_all terminates (children w)"
    by (simp add: fresh_def)
  have t1: "fst (task1_create_children (arg_n a) w) = Returned"
    using task1_run [OF assms(2), of "arg_n a"] by auto
  have t2: "fst (task2_exec_children (arg_n a) (arg_cmd a) True w) = Returned" if "arg_task a = ''2''"
  proof -
    from assms(4) that obtain argv where "shlex_split (arg_cmd a) = Inr argv"
      "task2_child_ends True argv w" by blast
    from task2_run [OF la this, of "arg_n a"] show ?thesis by auto
  qed
  have t3: "fst (task3_zombie_demo w) = Returned" if "arg_task a = ''3z''"
    using assms(5) that task3_zombie_run [OF assms(2)] by blast
  have t5: "fst (task5_priority (arg_n a) (arg_iterations a) w) = Returned"
    using task5_run [OF la, of "arg_n a" "arg_iterations a"] by auto
  show ?thesis
    using assms(1,3) t1 t2 t3 t5
    by (simp add: main_def ensure_linux_def task3_orphan_Exited task4_Returned)
qed

text \<open>
  C4, as amended. The program prints a diagnostic and leaves through \<open>sys.exit(1)\<close>
  exactly when the platform is not Linux, or task 4 is selected with \<open>--pid\<close> absent
  or equal to \<open>0\<close>; in each case the diagnostic is the one line it prints. On Linux,
  started with no children of its own and the default \<open>SIGCHLD\<close> disposition, every
  other selection ends with exit code 0, provided that for task 2 the command parses
  and the program it runs ends, and for the zombie demo the process listing can be run.
\<close>

theorem exit_status_cases:
  "(platform_system w \<noteq> ''Linux'' \<longrightarrow>
      main a w = (Exited 1, py_print [S ''WARNING: This script requires Linux (os.fork and /proc). Exiting.''] w)) \<and>
   (platform_system w = ''Linux'' \<and> arg_task a = ''4'' \<and> (arg_pid a = None \<or> arg_pid a = Some 0) \<longrightarrow>
      main a w = (Exited 1, py_print [S ''Please provide --pid <pid> for task 4''] w)) \<and>
   (fst (main a w) = Exited 1 \<longleftrightarrow>
      platform_system w \<noteq> ''Linux'' \<or>
      (arg_task a = ''4'' \<and> (arg_pid a = None \<or> arg_pid a = Some 0))) \<and>
   (platform_system w = ''Linux'' \<and> fresh w \<and>
    \<not> (arg_task a = ''4'' \<and> (arg_pid a = None \<or> arg_pid a = Some 0)) \<and>
    (arg_task a = ''2'' \<longrightarrow>
       (\<exists>argv. shlex_split (arg_cmd a) = Inr argv \<and> task2_child_ends True argv w)) \<and>
    (arg_task a = ''3z'' \<longrightarrow> (\<exists>out. ps_el w = Inr out)) \<longrightarrow>
      exit_code (fst (main a w)) = Some 0)"
  using main_not_linux [of w a] main_task4_no_pid [of w a] main_Exited_1 [of a w]
    main_completes [of w a]
  unfolding py_not_iff by blast

theorem exit_status_cases_witness:
  "platform_system (world0\<lparr>platform_system := ''Darwin''\<rparr>) \<noteq> ''Linux'' \<and>
   fst (main args0 (world0\<lparr>platform_system := ''Darwin''\<rparr>)) = Exited 1 \<and>
   platform_system world0 = ''Linux'' \<and> fresh world0 \<and>
   fst (main (args0\<lparr>arg_task := ''4''\<rparr>) world0) = Exited 1 \<and>
   exit_code (fst (main args0 world0)) = Some 0 \<and>
   exit_code (fst (main (args0\<lparr>arg_task := ''4'', arg_pid := Some 7\<rparr>) world0)) = Some 0 \<and>
   exit_code (fst (main (args0\<lparr>arg_task := ''5''\<rparr>) world0)) = Some 0"
proof -
  have l: "platform_system world0 = ''Linux''" and f: "fresh world0"
    by (simp_all add: world0_def fresh_def)
  from exit_status_cases [of "world0\<lparr>platform_system := ''Darwin''\<rparr>" args0]
  have a: "fst (main args0 (world0\<lparr>platform_system := ''Darwin''\<rparr>)) = Exited 1"
    by simp
  from exit_status_cases [of world0 "args0\<lparr>arg_task := ''4''\<rparr>"] l
  have b: "fst (main (args0\<lparr>arg_task := ''4''\<rparr>) world0) = Exited 1"
    by (simp add: args0_def)
  from exit_status_cases [of world0 args0] l f
  have c: "exit_code (fst (main args0 world0)) = Some 0"
    by (simp add: args0_def)
  from exit_status_cases [of world0 "args0\<lparr>arg_task := ''4'', arg_pid := Some 7\<rparr>"] l f
  have d: "exit_code (fst (main (args0\<lparr>arg_task := ''4'', arg_pid := Some 7\<rparr>) world0)) = Some 0"
    by (simp add: args0_def)
  from exit_status_cases [of world0 "args0\<lparr>arg_task := ''5''\<rparr>"] l f
  have e: "exit_code (fst (main (args0\<lparr>arg_task := ''5''\<rparr>) world0)) = Some 0"
    by (simp add: args0_def)
  from a b c d e l f show ?thesis by simp
qed

text \<open>The claim as stated fails: on Linux, with \<open>--pid 0\<close> supplied, the program
  still leaves with status 1.\<close>

theorem exit_status_pid_zero_counterexample:
  "fst (main (args0\<lparr>arg_task := ''4'', arg_pid := Some 0\<rparr>) world0) = Exited 1 \<and>
   \<not> (platform_system world0 \<noteq> ''Linux'' \<or>
       (arg_task (args0\<lparr>arg_task := ''4'', arg_pid := Some 0\<rparr>) = ''4'' \<and>
        arg_pid (args0\<lparr>arg_task := ''4'', arg_pid := Some 0\<rparr>) = None))"
  by (simp add: main_def ensure_linux_def world0_def args0_def py_not_def)

text \<open>
  C10. On Linux, task 4 with \<open>--pid 0\<close> prints the usage line and leaves with status
  1, exactly as when \<open>--pid\<close> is absent; PID 0 is not inspected.
\<close>

theorem pid_zero_like_missing:
  assumes "platform_system w = ''Linux''" and "arg_task a = ''4''"
  shows "main (a\<lparr>arg_pid := Some 0\<rparr>) w =
           (Exited 1, py_print [S ''Please provide --pid <pid> for task 4''] w) \<and>
         main (a\<lparr>arg_pid := Some 0\<rparr>) w = main (a\<lparr>arg_pid := None\<rparr>) w \<and>
         main (a\<lparr>arg_pid := Some 0\<rparr>) w \<noteq> task4_inspect 0 w"
proof -
  have z: "main (a\<lparr>arg_pid := Some 0\<rparr>) w =
           (Exited 1, py_print [S ''Please provide --pid <pid> for task 4''] w)"
    using assms by (simp add: main_task4_no_pid py_not_def)
  have n: "main (a\<lparr>arg_pid := None\<rparr>) w =
           (Exited 1, py_print [S ''Please provide --pid <pid> for task 4''] w)"
    using assms by (simp add: main_task4_no_pid py_not_def)
  have "fst (main (a\<lparr>arg_pid := Some 0\<rparr>) w) \<noteq> fst (task4_inspect 0 w)"
    by (simp add: z task4_Returned)
  then have d: "main (a\<lparr>arg_pid := Some 0\<rparr>) w \<noteq> task4_inspect 0 w"
    by (rule contrapos_nn) simp
  from z n d show ?thesis by (simp only: simp_thms)
qed

theorem pid_zero_like_missing_witness:
  "platform_system world0 = ''Linux'' \<and> arg_task (args0\<lparr>arg_task := ''4''\<rparr>) = ''4'' \<and>
   main (args0\<lparr>arg_task := ''4'', arg_pid := Some 0\<rparr>) world0 =
           (Exited 1, py_print [S ''Please provide --pid <pid> for task 4''] world0) \<and>
   main (args0\<lparr>arg_task := ''4'', arg_pid := Some 0\<rparr>) world0 =
     main (args0\<lparr>arg_task := ''4'', arg_pid := None\<rparr>) world0 \<and>
   main (args0\<lparr>arg_task := ''4'', arg_pid := Some 0\<rparr>) world0 \<noteq> task4_inspect 0 world0"
proof -
  have l: "platform_system world0 = ''Linux''" by (simp add: world0_def)
  have t: "arg_task (args0\<lparr>arg_task := ''4''\<rparr>) = ''4''" by simp
  show ?thesis
    by (rule conjI [OF l conjI [OF t pid_zero_like_missing [OF l t]]])
qed

subsection \<open>The terminal condition of the reap loops\<close>

lemma task2_reap_empty:
  "fst (task2_reap w) = Returned \<Longrightarrow> children (snd (task2_reap w)) = []"
  using task2_reap_sum [of w] by (simp split: prod.splits)

lemma task5_reap_empty:
  "fst (snd (task5_reap order w)) = Returned \<Longrightarrow> children (snd (snd (task5_reap order w))) = []"
  using task5_reap_sum [where order = order and w = w] by (simp split: prod.splits)

text \<open>
  C7, as amended. The loops of tasks 2 and 5 end on the \<open>ChildProcessError\<close> of
  \<open>os.wait()\<close> and treat it as success, whatever the world they start in: they
  return normally with no child left whenever every child ends (they wait for ever
  otherwise) and never let an exception escape; the task then prints its completion
  line. The loop of task 1 is a counted loop, one \<open>os.wait()\<close> per recorded child:
  after an ordinary launch it returns normally after these waits with no child left,
  and the task prints its completion line.
\<close>

theorem reap_loops_terminal:
  "fst (task2_reap w) = (if list_all terminates (children w) then Returned else Hung) \<and>
   (fst (task2_reap w) = Returned \<longrightarrow> children (snd (task2_reap w)) = []) \<and>
   fst (snd (task5_reap order w)) = (if list_all terminates (children w) then Returned else Hung) \<and>
   (fst (snd (task5_reap order w)) = Returned \<longrightarrow> children (snd (snd (task5_reap order w))) = []) \<and>
   (list_all terminates (children w) \<and> shlex_split cmd = Inr argv \<and> task2_child_ends ue argv w \<longrightarrow>
      (case task2_exec_children n cmd ue w of
         (fin, w') \<Rightarrow> fin = Returned \<and> children w' = [] \<and>
                      last (stdout w') = [S ''[Task 2] All children finished.''])) \<and>
   (list_all terminates (children w) \<longrightarrow>
      (case task5_priority n it w of
         (fin, w') \<Rightarrow> fin = Returned \<and> children w' = [] \<and>
                      (\<exists>finished. last (stdout w') =
                          [S ''[Task 5] Finish order (PIDs):'', S '' '', IL finished]))) \<and>
   (fresh w \<longrightarrow>
      (case task1_create_children n w of
         (fin, w') \<Rightarrow> fin = Returned \<and> children w' = [] \<and>
                      last (stdout w') = [S ''[Task 1] All children reaped.'']))"
proof -
  have t2: "case task2_exec_children n cmd ue w of
         (fin, w') \<Rightarrow> fin = Returned \<and> children w' = [] \<and>
                      last (stdout w') = [S ''[Task 2] All children finished.'']"
    if "list_all terminates (children w)" "shlex_split cmd = Inr argv" "task2_child_ends ue argv w"
    using task2_run [OF that, of n] by (auto simp: py_print_def)
  have t5: "case task5_priority n it w of
         (fin, w') \<Rightarrow> fin = Returned \<and> children w' = [] \<and>
                      (\<exists>finished. last (stdout w') =
                          [S ''[Task 5] Finish order (PIDs):'', S '' '', IL finished])"
    if "list_all terminates (children w)"
    using task5_run [OF that, of n it] by (auto simp: py_print_def)
  have t1: "case task1_create_children n w of
         (fin, w') \<Rightarrow> fin = Returned \<and> children w' = [] \<and>
                      last (stdout w') = [S ''[Task 1] All children reaped.'']"
    if "fresh w"
    using task1_run [OF that, of n] by (auto simp: py_print_def)
  show ?thesis
  proof (intro conjI impI)
    show "fst (task2_reap w) = (if list_all terminates (children w) then Returned else Hung)"
      by (rule task2_reap_fin)
    show "fst (snd (task5_reap order w)) = (if list_all terminates (children w) then Returned else Hung)"
      by (rule task5_reap_fin)
  qed (erule task2_reap_empty task5_reap_empty t1 t5 | (elim conjE, erule (2) t2))+
qed

theorem reap_loops_terminal_witness:
  "list_all terminates (children world0) \<and> fresh world0 \<and>
   shlex_split ''ls -l'' = Inr [''ls'', ''-l''] \<and>
   task2_child_ends True [''ls'', ''-l''] world0 \<and>
   fst (task2_reap world0) = Returned \<and>
   children (snd (task2_reap world0)) = [] \<and>
   fst (snd (task5_reap [] world0)) = Returned \<and>
   children (snd (snd (task5_reap [] world0))) = [] \<and>
   (case task2_exec_children 3 ''ls -l'' True world0 of
         (fin, w') \<Rightarrow> fin = Returned \<and> children w' = [] \<and>
                      last (stdout w') = [S ''[Task 2] All children finished.'']) \<and>
   (case task5_priority 3 2000000 world0 of
         (fin, w') \<Rightarrow> fin = Returned \<and> children w' = [] \<and>
                      (\<exists>finished. last (stdout w') =
                          [S ''[Task 5] Finish order (PIDs):'', S '' '', IL finished])) \<and>
   (case task1_create_children 3 world0 of
         (fin, w') \<Rightarrow> fin = Returned \<and> children w' = [] \<and>
                      last (stdout w') = [S ''[Task 1] All children reaped.''])"
proof -
  have la: "list_all terminates (children world0)" and f: "fresh world0"
    by (simp_all add: world0_def fresh_def)
  have s: "shlex_split ''ls -l'' = Inr [''ls'', ''-l'']"
    by code_simp
  have e: "task2_child_ends True [''ls'', ''-l''] world0"
    by (simp add: task2_child_ends_def world0_def)
  from reap_loops_terminal [of world0 "[]" "''ls -l''" "[''ls'', ''-l'']" True 3 2000000] la f s e
  show ?thesis
    by simp
qed

text \<open>
  The claim as stated fails for task 1. Its loop has no handler: when \<open>os.wait()\<close>
  reports that there is no child to reap while a recorded child is still to be waited
  for, the exception escapes. This is what happens to the whole task when the process
  was started with \<open>SIGCHLD\<close> ignored, where task 5 in the same world completes.
\<close>

theorem task1_no_handler_counterexample:
  "task1_reap [101] world0 = (Uncaught ChildProcessError, world0) \<and>
   fst (task1_create_children 1 (world0\<lparr>sigchld_ign := True\<rparr>)) = Uncaught ChildProcessError \<and>
   last (stdout (snd (task1_create_children 1 (world0\<lparr>sigchld_ign := True\<rparr>))))
     \<noteq> [S ''[Task 1] All children reaped.''] \<and>
   fst (task5_priority 1 2 (world0\<lparr>sigchld_ign := True\<rparr>)) = Returned"
proof -
  have ow: "os_wait world0 = (Raised ChildProcessError, world0)"
    by (rule os_wait_empty) (simp_all add: world0_def)
  have a: "task1_reap [101] world0 = (Uncaught ChildProcessError, world0)"
    by (simp add: ow)
  have b: "task1_create_children 1 (world0\<lparr>sigchld_ign := True\<rparr>) =
     (Uncaught ChildProcessError,
      world0\<lparr>sigchld_ign := True, last_pid := 101, children := [],
        forked := [\<lparr>cpid = 101,
                    cout = [[S ''[Child] PID='', I 101, S '' PPID='', I 100,
                             S ('' Message='' @ [sq] @ ''Hello from child ''), I 1, S [sq]]],
                    cend = Exited 0, cnice = None\<rparr>],
        stdout := [[S ''[Task 1] Parent PID: '', I 100, S '', creating '', I 1, S '' children''],
                   [S ''[Parent] spawned child PID='', I 101]]\<rparr>)"
    by (simp add: task1_create_children_def py_range_def upto.simps os_fork_def task1_child_def
          py_print_def os_wait_def terminates_def world0_def Let_def)
  have la: "list_all terminates (children (world0\<lparr>sigchld_ign := True\<rparr>))"
    by (simp add: world0_def)
  from task5_run [OF la, of 1 2] have c: "fst (task5_priority 1 2 (world0\<lparr>sigchld_ign := True\<rparr>)) = Returned"
    by auto
  have b1: "fst (task1_create_children 1 (world0\<lparr>sigchld_ign := True\<rparr>)) = Uncaught ChildProcessError"
    and b2: "last (stdout (snd (task1_create_children 1 (world0\<lparr>sigchld_ign := True\<rparr>))))
       \<noteq> [S ''[Task 1] All children reaped.'']"
    by (simp_all add: b)
  show ?thesis
    by (intro conjI a b1 b2 c)
qed

subsection \<open>Task 1, whatever the launch\<close>

lemma os_wait_forked: "forked (snd (os_wait w)) = forked w"
  by (simp add: os_wait_def Let_def)

lemma task1_reap_forked: "forked (snd (task1_reap chs w)) = forked w"
proof (induction chs arbitrary: w)
  case Nil
  show ?case by simp
next
  case (Cons x chs)
  obtain r w1 where ow: "os_wait w = (r, w1)" by (cases "os_wait w")
  with os_wait_forked [of w] have f: "forked w1 = forked w" by simp
  show ?case
    by (cases r) (simp_all add: ow f Cons.IH py_print_def)
qed

lemma task1_forks:
  "\<exists>cs. forked (snd (task1_create_children n w)) = forked w @ cs \<and> length cs = nat n \<and>
        distinct (map cpid cs)"
proof -
  let ?w0 = "py_print [S ''[Task 1] Parent PID: '', I (pid_self w), S '', creating '', I n, S '' children''] w"
  obtain chs w1 where sp: "task1_spawn (py_range n) [] ?w0 = (chs, w1)"
    by (cases "task1_spawn (py_range n) [] ?w0")
  from task1_spawn_grown [OF sp] obtain cs where cs: "grown ?w0 cs w1" "length cs = nat n"
    by (auto simp: length_py_range)
  from cs(1) have w1: "forked w1 = forked w @ cs"
    by (simp add: grown_def py_print_def)
  obtain fin w2 where rp: "task1_reap chs w1 = (fin, w2)"
    by (cases "task1_reap chs w1")
  with task1_reap_forked [of chs w1] have f2: "forked w2 = forked w1" by simp
  have "task1_create_children n w = (fin, w2) \<or>
        task1_create_children n w = (fin, py_print [S ''[Task 1] All children reaped.''] w2)"
    by (cases fin) (simp_all add: task1_create_children_def Let_def sp rp)
  then have "forked (snd (task1_create_children n w)) = forked w2"
    by (auto simp: py_print_def)
  with f2 w1 cs(2) grown_distinct [OF cs(1)] show ?thesis
    by (intro exI [of _ cs]) simp
qed

lemma task1_nothing: "task1_create_children 0 w =
  (Returned, py_print [S ''[Task 1] All children reaped.'']
     (py_print [S ''[Task 1] Parent PID: '', I (pid_self w), S '', creating '', I 0, S '' children''] w))"
  by (simp add: task1_create_children_def py_range_def Let_def)

text \<open>
  C1, as amended. For every \<open>n \<ge> 0\<close> task 1 forks exactly \<open>n\<close> children, with
  distinct PIDs (every fork being granted), and for \<open>n = 0\<close> it returns at once having
  forked and reaped nothing. When the process was started with no children of its own
  and the default \<open>SIGCHLD\<close> disposition, the task returns normally after reaping
  exactly \<open>n\<close> statuses; the reaped PIDs are the forked PIDs, each once, and no child
  is left.
\<close>

theorem task1_reaps_every_child:
  assumes "0 \<le> n"
  shows "case task1_create_children n w of (fin, w') \<Rightarrow>
           forked w' = forked w @ new_forked w w' \<and>
           int (length (new_forked w w')) = n \<and>
           distinct (map cpid (new_forked w w')) \<and>
           (n = 0 \<longrightarrow> fin = Returned \<and> reaped w' = reaped w \<and> children w' = children w) \<and>
           (fresh w \<longrightarrow>
              fin = Returned \<and>
              reaped w' = reaped w @ new_reaped w w' \<and>
              int (length (new_reaped w w')) = n \<and>
              mset (map fst (new_reaped w w')) = mset (map cpid (new_forked w w')) \<and>
              set (map fst (new_reaped w w')) = set (map cpid (new_forked w w')) \<and>
              children w' = [])"
proof -
  obtain fin w' where res: "task1_create_children n w = (fin, w')"
    by (cases "task1_create_children n w")
  from task1_forks [of n w] res obtain cs where cs: "forked w' = forked w @ cs"
    "length cs = nat n" "distinct (map cpid cs)"
    by auto
  have nf: "new_forked w w' = cs"
    by (simp add: new_forked_def cs)
  have a: "forked w' = forked w @ new_forked w w'" "int (length (new_forked w w')) = n"
    "distinct (map cpid (new_forked w w'))"
    using cs assms by (simp_all add: nf)
  have b: "fin = Returned \<and> reaped w' = reaped w \<and> children w' = children w" if "n = 0"
    using res that by (auto simp: task1_nothing py_print_def)
  have c: "fin = Returned \<and>
              reaped w' = reaped w @ new_reaped w w' \<and>
              int (length (new_reaped w w')) = n \<and>
              mset (map fst (new_reaped w w')) = mset (map cpid (new_forked w w')) \<and>
              set (map fst (new_reaped w w')) = set (map cpid (new_forked w w')) \<and>
              children w' = []" if "fresh w"
  proof -
    from task1_run [OF that, of n] res obtain ds rs w2 where r:
      "fin = Returned" "w' = py_print [S ''[Task 1] All children reaped.''] w2"
      "forked w2 = forked w @ ds" "length ds = nat n"
      "reaped w2 = reaped w @ rs"
      "mset rs = mset (map (\<lambda>c. (cpid c, wait_status c)) ds)" "children w2 = []"
      by auto
    have ds: "ds = cs"
      using cs(1) r(2,3) by (simp add: py_print_def)
    have nr: "new_reaped w w' = rs"
      by (simp add: new_reaped_def r py_print_def)
    have fw: "reaped w' = reaped w @ rs" "children w' = []"
      by (simp_all add: r py_print_def)
    from mset_fst_reaped [OF r(6)] have m: "mset (map fst rs) = mset (map cpid cs)"
      "length rs = length cs" by (simp_all add: ds)
    from m(1) have st: "set (map fst rs) = set (map cpid cs)"
      by (rule mset_eq_setD)
    from m(2) cs(2) assms have lr: "int (length rs) = n" by simp
    show ?thesis
      unfolding nf nr by (intro conjI r(1) fw m(1) st lr)
  qed
  show ?thesis
    unfolding res prod.case using a b c by blast
qed

theorem task1_reaps_every_child_witness:
  "(0::int) \<le> 3 \<and> fresh world0 \<and>
   (case task1_create_children 3 world0 of (fin, w') \<Rightarrow>
           forked w' = forked world0 @ new_forked world0 w' \<and>
           int (length (new_forked world0 w')) = 3 \<and>
           distinct (map cpid (new_forked world0 w')) \<and>
           fin = Returned \<and>
           reaped w' = reaped world0 @ new_reaped world0 w' \<and>
           int (length (new_reaped world0 w')) = 3 \<and>
           mset (map fst (new_reaped world0 w')) = mset (map cpid (new_forked world0 w')) \<and>
           set (map fst (new_reaped world0 w')) = set (map cpid (new_forked world0 w')) \<and>
           children w' = [])"
proof -
  have f: "fresh world0" by (simp add: fresh_def world0_def)
  have z: "(0::int) \<le> 3" by simp
  from task1_reaps_every_child [OF z, of world0] f show ?thesis
    by (simp split: prod.splits)
qed

text \<open>
  The claim as stated fails when the launch is not the ordinary one. With one inherited
  child (PID 50) that has ended, task 1 with \<open>n = 1\<close> reaps the inherited child and
  leaves its own child (PID 101) unreaped; with \<open>SIGCHLD\<close> ignored it forks one child
  and reaps none, because the wait raises.
\<close>

theorem task1_launch_counterexample:
  "(case task1_create_children 1 world_inherited of (fin, w') \<Rightarrow>
      fin = Returned \<and>
      map cpid (new_forked world_inherited w') = [101] \<and>
      map fst (new_reaped world_inherited w') = [50] \<and>
      map cpid (children w') = [101]) \<and>
   (case task1_create_children 1 world_sigign of (fin, w') \<Rightarrow>
      fin = Uncaught ChildProcessError \<and>
      map cpid (new_forked world_sigign w') = [101] \<and>
      new_reaped world_sigign w' = [])"
proof -
  have a: "case task1_create_children 1 world_inherited of (fin, w') \<Rightarrow>
      fin = Returned \<and>
      map cpid (new_forked world_inherited w') = [101] \<and>
      map fst (new_reaped world_inherited w') = [50] \<and>
      map cpid (children w') = [101]"
    by (simp add: task1_create_children_def py_range_def upto.simps os_fork_def task1_child_def
          py_print_def os_wait_def terminates_def pick_ready_def wait_status_def
          world_inherited_def inherited_def world0_def Let_def new_forked_def new_reaped_def)
  have b: "case task1_create_children 1 world_sigign of (fin, w') \<Rightarrow>
      fin = Uncaught ChildProcessError \<and>
      map cpid (new_forked world_sigign w') = [101] \<and>
      new_reaped world_sigign w' = []"
    by (simp add: task1_create_children_def py_range_def upto.simps os_fork_def task1_child_def
          py_print_def os_wait_def terminates_def
          world_sigign_def world0_def Let_def new_forked_def new_reaped_def)
  show ?thesis by (rule conjI [OF a b])
qed

subsection \<open>Task 5, whatever the launch\<close>

lemma task5_forks:
  "\<exists>cs. forked (snd (task5_priority n it w)) = forked w @ cs \<and>
        map cnice cs = map Some (py_slice_to nicelist n) \<and> distinct (map cpid cs)"
proof -
  let ?w0 = "py_print [S ''[Task 5] Spawning '', I n, S '' CPU-bound children with different nice values.''] w"
  obtain chs w1 where sp: "task5_spawn it (py_slice_to nicelist n) [] ?w0 = (chs, w1)"
    by (cases "task5_spawn it (py_slice_to nicelist n) [] ?w0")
  from task5_spawn_grown [OF sp] obtain cs where cs: "grown ?w0 cs w1"
    "map cnice cs = map Some (py_slice_to nicelist n)"
    by auto
  from cs(1) have w1: "forked w1 = forked w @ cs"
    by (simp add: grown_def py_print_def)
  obtain order fin w2 where rp: "task5_reap [] w1 = (order, fin, w2)"
    by (cases "task5_reap [] w1")
  from task5_reap_sum [where order = "[]" and w = w1] rp have f2: "forked w2 = forked w1"
    by simp
  have "task5_priority n it w = (fin, w2) \<or>
        task5_priority n it w =
          (fin, py_print [S ''[Task 5] Finish order (PIDs):'', S '' '', IL order] w2)"
    by (simp add: task5_priority_def Let_def sp rp)
  then have "forked (snd (task5_priority n it w)) = forked w2"
    by (auto simp: py_print_def)
  with f2 w1 cs(2) grown_distinct [OF cs(1)] show ?thesis
    by (intro exI [of _ cs]) simp
qed

text \<open>
  C2, as amended. For every \<open>n \<ge> 0\<close> task 5 forks \<open>min n 5\<close> children (every fork
  being granted); the niceness hints they ask for are the first \<open>min n 5\<close> entries of
  \<open>0, 5, 10, 15, 19\<close>, in that order and pairwise distinct. When the process was
  started with no children of its own and the default \<open>SIGCHLD\<close> disposition, the
  task returns normally and the finish order it prints as its last line is the list of
  reaped PIDs, a permutation of the forked PIDs with no PID twice.
\<close>

theorem task5_hints_and_finish_order:
  assumes "0 \<le> n"
  shows "case task5_priority n it w of (fin, w') \<Rightarrow>
           forked w' = forked w @ new_forked w w' \<and>
           length (new_forked w w') = min (nat n) 5 \<and>
           map cnice (new_forked w w') = map Some (take (nat n) [0, 5, 10, 15, 19]) \<and>
           distinct (map cnice (new_forked w w')) \<and>
           (fresh w \<longrightarrow>
              fin = Returned \<and>
              last (stdout w') =
                [S ''[Task 5] Finish order (PIDs):'', S '' '', IL (map fst (new_reaped w w'))] \<and>
              mset (map fst (new_reaped w w')) = mset (map cpid (new_forked w w')) \<and>
              distinct (map fst (new_reaped w w')) \<and>
              children w' = [])"
proof -
  obtain fin w' where res: "task5_priority n it w = (fin, w')"
    by (cases "task5_priority n it w")
  from task5_forks [of n it w] res obtain cs where cs: "forked w' = forked w @ cs"
    "map cnice cs = map Some (py_slice_to nicelist n)" "distinct (map cpid cs)"
    by auto
  have nf: "new_forked w w' = cs"
    by (simp add: new_forked_def cs)
  have hints: "map cnice cs = map Some (take (nat n) [0, 5, 10, 15, 19])"
    using cs(2) assms by (simp add: py_slice_to_nonneg nicelist_def)
  have "distinct (take (nat n) [0, 5, 10, 15, 19 :: int])"
    by (rule distinct_take) simp
  then have dh: "distinct (map cnice cs)"
    unfolding hints by (simp add: distinct_map)
  from arg_cong [OF hints, of length] have len: "length cs = min (nat n) 5"
    by simp
  have c: "fin = Returned \<and>
              last (stdout w') =
                [S ''[Task 5] Finish order (PIDs):'', S '' '', IL (map fst (new_reaped w w'))] \<and>
              mset (map fst (new_reaped w w')) = mset (map cpid (new_forked w w')) \<and>
              distinct (map fst (new_reaped w w')) \<and>
              children w' = []" if "fresh w"
  proof -
    from that have fr: "children w = []" "\<not> sigchld_ign w"
      by (simp_all add: fresh_def)
    then have "list_all terminates (children w)" by simp
    from task5_run [OF this, of n it] fr res obtain ds rs w2 where r:
      "fin = Returned"
      "w' = py_print [S ''[Task 5] Finish order (PIDs):'', S '' '', IL (map fst rs)] w2"
      "children w2 = []" "forked w2 = forked w @ ds"
      "reaped w2 = reaped w @ rs" "mset rs = mset (map (\<lambda>c. (cpid c, wait_status c)) ds)"
      by auto
    have ds: "ds = cs"
      using cs(1) r(2,4) by (simp add: py_print_def)
    have nr: "new_reaped w w' = rs"
      by (simp add: new_reaped_def r py_print_def)
    have fw: "children w' = []"
      "last (stdout w') = [S ''[Task 5] Finish order (PIDs):'', S '' '', IL (map fst rs)]"
      by (simp_all add: py_print_def r)
    from mset_fst_reaped [OF r(6)] have m: "mset (map fst rs) = mset (map cpid cs)"
      by (simp add: ds)
    from m cs(3) have d: "distinct (map fst rs)"
      by (metis mset_eq_imp_distinct_iff)
    show ?thesis
      unfolding nf nr by (intro conjI r(1) fw m d)
  qed
  have a: "forked w' = forked w @ new_forked w w'" "length (new_forked w w') = min (nat n) 5"
    "map cnice (new_forked w w') = map Some (take (nat n) [0, 5, 10, 15, 19])"
    "distinct (map cnice (new_forked w w'))"
    unfolding nf by (rule cs(1) len hints dh)+
  show ?thesis
    unfolding res prod.case using a c by blast
qed

theorem task5_hints_and_finish_order_witness:
  "(0::int) \<le> 3 \<and> fresh world0 \<and>
   (case task5_priority 3 2000000 world0 of (fin, w') \<Rightarrow>
           forked w' = forked world0 @ new_forked world0 w' \<and>
           length (new_forked world0 w') = 3 \<and>
           map cnice (new_forked world0 w') = [Some 0, Some 5, Some 10] \<and>
           distinct (map cnice (new_forked world0 w')) \<and>
           fin = Returned \<and>
           last (stdout w') =
             [S ''[Task 5] Finish order (PIDs):'', S '' '', IL (map fst (new_reaped world0 w'))] \<and>
           mset (map fst (new_reaped world0 w')) = mset (map cpid (new_forked world0 w')) \<and>
           distinct (map fst (new_reaped world0 w')) \<and>
           children w' = [])"
proof -
  have f: "fresh world0" by (simp add: fresh_def world0_def)
  have z: "(0::int) \<le> 3" by simp
  have t: "take (nat 3) [0, 5, 10, 15, 19 :: int] = [0, 5, 10]" by (simp add: numeral_3_eq_3)
  from task5_hints_and_finish_order [OF z, where it = 2000000 and w = world0] f show ?thesis
    unfolding t by (simp split: prod.splits)
qed

text \<open>
  The claim as stated fails when the launch is not the ordinary one. With \<open>SIGCHLD\<close>
  ignored, task 5 with \<open>n = 1\<close> forks one child (PID 101) and prints an empty finish
  order; with one inherited child (PID 50) that has ended, the finish order holds PID
  50, which the task never forked.
\<close>

theorem task5_launch_counterexample:
  "(case task5_priority 1 2 world_sigign of (fin, w') \<Rightarrow>
      fin = Returned \<and>
      map cpid (new_forked world_sigign w') = [101] \<and>
      last (stdout w') = [S ''[Task 5] Finish order (PIDs):'', S '' '', IL []]) \<and>
   (case task5_priority 1 2 world_inherited of (fin, w') \<Rightarrow>
      fin = Returned \<and>
      map cpid (new_forked world_inherited w') = [101] \<and>
      last (stdout w') = [S ''[Task 5] Finish order (PIDs):'', S '' '', IL [50, 101]])"
proof -
  have a: "case task5_priority 1 2 world_sigign of (fin, w') \<Rightarrow>
      fin = Returned \<and>
      map cpid (new_forked world_sigign w') = [101] \<and>
      last (stdout w') = [S ''[Task 5] Finish order (PIDs):'', S '' '', IL []]"
    by code_simp
  have b: "case task5_priority 1 2 world_inherited of (fin, w') \<Rightarrow>
      fin = Returned \<and>
      map cpid (new_forked world_inherited w') = [101] \<and>
      last (stdout w') = [S ''[Task 5] Finish order (PIDs):'', S '' '', IL [50, 101]]"
    by code_simp
  show ?thesis by (rule conjI [OF a b])
qed

subsection \<open>Task 2, whatever the launch\<close>

lemma task2_forks:
  assumes "shlex_split cmd = Inr argv"
  shows "\<exists>cs. forked (snd (task2_exec_children n cmd ue w)) = forked w @ cs \<and>
        list_all2 (\<lambda>i c. (cout c, cend c, cnice c) = task2_child ue argv i (cpid c) w) (py_range n) cs"
proof -
  let ?w0 = "py_print [S ''[Task 2] Parent PID='', I (pid_self w), S '', running '', I n,
                       S '' children each executing: '', SL argv] w"
  let ?w1 = "task2_spawn ue argv (py_range n) ?w0"
  have env: "pid_self ?w0 = pid_self w" "execvp_env ?w0 = execvp_env w" "run_env ?w0 = run_env w"
    by (simp_all add: py_print_def)
  from task2_spawn_grown [OF refl, where ue = ue and argv = argv and js = "py_range n" and w = ?w0]
  obtain cs where cs: "grown ?w0 cs ?w1"
    "list_all2 (\<lambda>i c. (cout c, cend c, cnice c) = task2_child ue argv i (cpid c) w) (py_range n) cs"
    by (auto simp: task2_child_env [OF env])
  from cs(1) have w1: "forked ?w1 = forked w @ cs"
    by (simp add: grown_def py_print_def)
  obtain fin w2 where rp: "task2_reap ?w1 = (fin, w2)"
    by (cases "task2_reap ?w1")
  from task2_reap_sum [of ?w1] rp have f2: "forked w2 = forked ?w1"
    by simp
  have "task2_exec_children n cmd ue w = (fin, w2) \<or>
        task2_exec_children n cmd ue w =
          (fin, py_print [S ''[Task 2] All children finished.''] w2)"
    by (cases fin) (simp_all add: task2_exec_children_def Let_def assms rp)
  then have "forked (snd (task2_exec_children n cmd ue w)) = forked w2"
    by (auto simp: py_print_def)
  with f2 w1 cs(2) show ?thesis
    by (intro exI [of _ cs]) simp
qed

text \<open>
  C3, as amended. In task 2, for a command whose program makes \<open>execvp\<close> raise
  \<open>FileNotFoundError\<close>, every one of the \<open>n\<close> children ends through
  \<open>os._exit(1)\<close> (not through an uncaught exception), its last printed line is the
  diagnostic naming the program, and its wait status is not zero. When the process was
  started with no children of its own and the default \<open>SIGCHLD\<close> disposition, the
  parent returns normally after reaping exactly the \<open>n\<close> children it forked.
\<close>

theorem task2_missing_program:
  assumes "0 \<le> n" and "shlex_split cmd = Inr (prog # rest)"
    and "execvp_env w prog (prog # rest) = ExecRaises FileNotFoundError"
  shows "case task2_exec_children n cmd True w of (fin, w') \<Rightarrow>
           forked w' = forked w @ new_forked w w' \<and>
           int (length (new_forked w w')) = n \<and>
           map cend (new_forked w w') = map (\<lambda>i. Exited 1) (py_range n) \<and>
           map (\<lambda>c. last (cout c)) (new_forked w w') =
             map (\<lambda>i. [S ''[Child '', I (i + 1), S ''] exec failed: '', S prog, S '' not found''])
               (py_range n) \<and>
           map wait_status (new_forked w w') = map (\<lambda>i. 256) (py_range n) \<and>
           (fresh w \<longrightarrow>
              fin = Returned \<and>
              int (length (new_reaped w w')) = n \<and>
              mset (new_reaped w w') = mset (map (\<lambda>c. (cpid c, 256)) (new_forked w w')) \<and>
              children w' = [])"
proof -
  let ?P = "\<lambda>i (c::child). (cout c, cend c, cnice c) = task2_child True (prog # rest) i (cpid c) w"
  obtain fin w' where res: "task2_exec_children n cmd True w = (fin, w')"
    by (cases "task2_exec_children n cmd True w")
  from task2_forks [OF assms(2), of n True w] res obtain cs where cs:
    "forked w' = forked w @ cs" "list_all2 ?P (py_range n) cs"
    by auto
  have nf: "new_forked w w' = cs"
    by (simp add: new_forked_def cs)
  have ce: "map cend cs = map (\<lambda>i. Exited 1) (py_range n)"
  proof (rule list_all2_map_eq, rule list_all2_mono [OF cs(2)])
    fix i c assume "?P i c"
    then show "cend c = Exited 1" by (simp add: task2_child_def assms(3))
  qed
  have co: "map (\<lambda>c. last (cout c)) cs =
      map (\<lambda>i. [S ''[Child '', I (i + 1), S ''] exec failed: '', S prog, S '' not found'']) (py_range n)"
  proof (rule list_all2_map_eq, rule list_all2_mono [OF cs(2)])
    fix i c assume "?P i c"
    then show "last (cout c) = [S ''[Child '', I (i + 1), S ''] exec failed: '', S prog, S '' not found'']"
      by (simp add: task2_child_def assms(3))
  qed
  have ws: "map wait_status cs = map (\<lambda>i. 256) (py_range n)"
  proof (rule list_all2_map_eq, rule list_all2_mono [OF cs(2)])
    fix i c assume "?P i c"
    then show "wait_status c = 256" by (simp add: task2_child_def assms(3) wait_status_def)
  qed
  from arg_cong [OF ce, of length] assms(1) have len: "int (length cs) = n"
    by (simp add: length_py_range)
  have same: "map (\<lambda>c. (cpid c, wait_status c)) cs = map (\<lambda>c. (cpid c, 256)) cs"
    using list_all2_lengthD [OF cs(2)] ws
    by (auto simp: list_eq_iff_nth_eq)
  have c: "fin = Returned \<and>
              int (length (new_reaped w w')) = n \<and>
              mset (new_reaped w w') = mset (map (\<lambda>c. (cpid c, 256)) (new_forked w w')) \<and>
              children w' = []" if "fresh w"
  proof -
    from that have fr: "children w = []" "\<not> sigchld_ign w"
      by (simp_all add: fresh_def)
    have la: "list_all terminates (children w)" by (simp add: fr)
    have ends: "task2_child_ends True (prog # rest) w"
      by (simp add: task2_child_ends_def assms(3))
    from task2_run [OF la assms(2) ends, of n] fr res obtain ds rs w2 where r:
      "fin = Returned" "w' = py_print [S ''[Task 2] All children finished.''] w2"
      "children w2 = []" "forked w2 = forked w @ ds"
      "reaped w2 = reaped w @ rs" "mset rs = mset (map (\<lambda>c. (cpid c, wait_status c)) ds)"
      by auto
    have ds: "ds = cs"
      using cs(1) r(2,4) by (simp add: py_print_def)
    have nr: "new_reaped w w' = rs"
      by (simp add: new_reaped_def r py_print_def)
    have fw: "children w' = []"
      by (simp add: py_print_def r)
    from mset_fst_reaped [OF r(6)] len have lr: "int (length rs) = n"
      by (simp add: ds)
    from r(6) same have ms: "mset rs = mset (map (\<lambda>c. (cpid c, 256)) cs)"
      by (simp add: ds)
    show ?thesis
      unfolding nf nr by (intro conjI r(1) lr ms fw)
  qed
  have a: "forked w' = forked w @ new_forked w w'" "int (length (new_forked w w')) = n"
    "map cend (new_forked w w') = map (\<lambda>i. Exited 1) (py_range n)"
    "map (\<lambda>c. last (cout c)) (new_forked w w') =
       map (\<lambda>i. [S ''[Child '', I (i + 1), S ''] exec failed: '', S prog, S '' not found''])
         (py_range n)"
    "map wait_status (new_forked w w') = map (\<lambda>i. 256) (py_range n)"
    unfolding nf by (rule cs(1) len ce co ws)+
  show ?thesis
    unfolding res prod.case using a c by blast
qed

theorem task2_missing_program_witness:
  "(0::int) \<le> 2 \<and> shlex_split ''nosuchprog -x'' = Inr [''nosuchprog'', ''-x''] \<and>
   execvp_env world0 ''nosuchprog'' [''nosuchprog'', ''-x''] = ExecRaises FileNotFoundError \<and>
   fresh world0 \<and>
   (case task2_exec_children 2 ''nosuchprog -x'' True world0 of (fin, w') \<Rightarrow>
           forked w' = forked world0 @ new_forked world0 w' \<and>
           int (length (new_forked world0 w')) = 2 \<and>
           map cend (new_forked world0 w') = map (\<lambda>i. Exited 1) (py_range 2) \<and>
           map (\<lambda>c. last (cout c)) (new_forked world0 w') =
             map (\<lambda>i. [S ''[Child '', I (i + 1), S ''] exec failed: '', S ''nosuchprog'', S '' not found''])
               (py_range 2) \<and>
           map wait_status (new_forked world0 w') = map (\<lambda>i. 256) (py_range 2) \<and>
           fin = Returned \<and>
           int (length (new_reaped world0 w')) = 2 \<and>
           mset (new_reaped world0 w') = mset (map (\<lambda>c. (cpid c, 256)) (new_forked world0 w')) \<and>
           children w' = [])"
proof -
  have f: "fresh world0" by (simp add: fresh_def world0_def)
  have s: "shlex_split ''nosuchprog -x'' = Inr [''nosuchprog'', ''-x'']"
    by code_simp
  have e: "execvp_env world0 ''nosuchprog'' [''nosuchprog'', ''-x''] = ExecRaises FileNotFoundError"
    by (simp add: world0_def)
  have z: "(0::int) \<le> 2" by simp
  from task2_missing_program [OF z s e] f s e show ?thesis
    by (simp split: prod.splits)
qed

text \<open>
  The claim as stated fails in two ways. A program can fail to be located without
  \<open>FileNotFoundError\<close>: when a component of its path is not a directory, \<open>execvp\<close>
  raises \<open>NotADirectoryError\<close>, which the handler does not catch, and the child ends
  on the uncaught exception having printed no diagnostic. And with \<open>SIGCHLD\<close>
  ignored the parent of a child whose program is not found reaps none of its children.
\<close>

theorem task2_missing_program_counterexample:
  "(case task2_exec_children 1 ''/etc/passwd/nosuchprog'' True world_notdir of (fin, w') \<Rightarrow>
      map cend (new_forked world_notdir w') = [Uncaught (OtherError ''NotADirectoryError'')] \<and>
      map cout (new_forked world_notdir w') =
        [[[S ''[Child '', I 1, S ''] PID='', I 101, S '' PPID='', I 100,
           S '' ABOUT TO RUN: '', SL [''/etc/passwd/nosuchprog'']]]]) \<and>
   (case task2_exec_children 1 ''nosuchprog'' True world_sigign of (fin, w') \<Rightarrow>
      fin = Returned \<and>
      map cend (new_forked world_sigign w') = [Exited 1] \<and>
      new_reaped world_sigign w' = [])"
proof -
  have a: "case task2_exec_children 1 ''/etc/passwd/nosuchprog'' True world_notdir of (fin, w') \<Rightarrow>
      map cend (new_forked world_notdir w') = [Uncaught (OtherError ''NotADirectoryError'')] \<and>
      map cout (new_forked world_notdir w') =
        [[[S ''[Child '', I 1, S ''] PID='', I 101, S '' PPID='', I 100,
           S '' ABOUT TO RUN: '', SL [''/etc/passwd/nosuchprog'']]]]"
    by code_simp
  have b: "case task2_exec_children 1 ''nosuchprog'' True world_sigign of (fin, w') \<Rightarrow>
      fin = Returned \<and>
      map cend (new_forked world_sigign w') = [Exited 1] \<and>
      new_reaped world_sigign w' = []"
    by code_simp
  show ?thesis by (rule conjI [OF a b])
qed

subsection \<open>Splitting the command line\<close>

lemma blank_char_iff: "blank_char c \<longleftrightarrow> c \<in> lex_whitespace"
  by (auto simp: blank_char_def lex_whitespace_def)

lemma plain_charD:
  "plain_char c \<Longrightarrow> c \<notin> lex_whitespace \<and> c \<notin> lex_quotes \<and> c \<noteq> backslash"
  by (simp add: plain_char_def blank_char_iff lex_quotes_def)

lemma quote_facts:
  "sq \<in> lex_quotes" "dq \<in> lex_quotes" "sq \<notin> lex_whitespace" "dq \<notin> lex_whitespace"
  "sq \<notin> lex_escapedquotes" "dq \<in> lex_escapedquotes" "backslash \<notin> lex_whitespace"
  "backslash \<notin> lex_quotes"
  by (simp_all add: lex_quotes_def lex_whitespace_def lex_escapedquotes_def)

lemma esc_irrelevant:
  "st \<noteq> InEscape \<Longrightarrow> read_loop st qd e tok inp = read_loop st qd e' tok inp"
proof (induction inp arbitrary: st qd tok)
  case Nil
  then show ?case by (cases st) simp_all
next
  case (Cons c cs)
  then show ?case
    by (cases st) (auto intro!: Cons.IH)
qed

lemma read_squoted_body:
  "sq \<notin> set b \<Longrightarrow>
     read_loop (InQuote sq) qd e tok (b @ sq # rest) = read_loop InWord True e (tok @ b) rest"
  by (induction b arbitrary: tok qd) (auto simp: quote_facts)

lemma read_dquoted_body:
  "list_all item_ok its \<Longrightarrow>
     read_loop (InQuote dq) qd e tok (concat (map item_text its) @ dq # rest) =
     read_loop InWord True e (tok @ concat (map item_value its)) rest"
proof (induction its arbitrary: tok qd e)
  case Nil
  show ?case by simp
next
  case (Cons it its)
  then have ok: "item_ok it" and oks: "list_all item_ok its" by simp_all
  show ?case
  proof (cases it)
    case (DChar c)
    with ok show ?thesis
      by (simp add: Cons.IH [OF oks] quote_facts)
  next
    case (DEsc c)
    have irr: "read_loop InWord True (InQuote dq) t rest = read_loop InWord True e t rest" for t
      by (rule esc_irrelevant) simp
    show ?thesis
      by (simp add: DEsc Cons.IH [OF oks] quote_facts irr)
  qed
qed

lemma read_part_word:
  assumes "part_ok p"
  shows "read_loop InWord qd e tok (part_text p @ rest) =
         read_loop InWord (qd \<or> is_quoted p) e (tok @ part_value p) rest"
proof (cases p)
  case (Bare c)
  with assms plain_charD [of c] show ?thesis by simp
next
  case (Esc c)
  have "read_loop InWord qd InWord (tok @ [c]) rest = read_loop InWord qd e (tok @ [c]) rest"
    by (rule esc_irrelevant) simp
  then show ?thesis by (simp add: Esc quote_facts)
next
  case (SQuoted b)
  with assms show ?thesis by (simp add: quote_facts read_squoted_body)
next
  case (DQuoted its)
  with assms show ?thesis by (simp add: quote_facts read_dquoted_body)
qed

lemma read_part_between:
  assumes "part_ok p"
  shows "read_loop Between qd e [] (part_text p @ rest) =
         read_loop InWord (qd \<or> is_quoted p) e (part_value p) rest"
proof (cases p)
  case (Bare c)
  with assms plain_charD [of c] show ?thesis by simp
next
  case (Esc c)
  have "read_loop InWord qd InWord [c] rest = read_loop InWord qd e [c] rest"
    by (rule esc_irrelevant) simp
  then show ?thesis by (simp add: Esc quote_facts)
next
  case (SQuoted b)
  with assms read_squoted_body [of b qd e "[]" rest] show ?thesis by (simp add: quote_facts)
next
  case (DQuoted its)
  with assms read_dquoted_body [of its qd e "[]" rest] show ?thesis by (simp add: quote_facts)
qed

lemma read_parts_word:
  "list_all part_ok ps \<Longrightarrow>
     read_loop InWord qd e tok (word_text ps @ rest) =
     read_loop InWord (qd \<or> list_ex is_quoted ps) e (tok @ word_value ps) rest"
proof (induction ps arbitrary: qd tok)
  case Nil
  show ?case by (simp add: word_text_def word_value_def)
next
  case (Cons p ps)
  then have p: "part_ok p" and ps: "list_all part_ok ps" by simp_all
  have "read_loop InWord qd e tok (word_text (p # ps) @ rest) =
        read_loop InWord qd e tok (part_text p @ (word_text ps @ rest))"
    by (simp add: word_text_def)
  also have "\<dots> = read_loop InWord (qd \<or> is_quoted p) e (tok @ part_value p) (word_text ps @ rest)"
    by (rule read_part_word [OF p])
  also have "\<dots> = read_loop InWord ((qd \<or> is_quoted p) \<or> list_ex is_quoted ps) e
                      ((tok @ part_value p) @ word_value ps) rest"
    by (rule Cons.IH [OF ps])
  finally show ?case by (simp add: word_value_def)
qed

lemma read_word_between:
  assumes "word_ok ps"
  shows "read_loop Between qd e [] (word_text ps @ rest) =
         read_loop InWord (qd \<or> list_ex is_quoted ps) e (word_value ps) rest"
proof -
  from assms obtain p ps' where ps: "ps = p # ps'" and p: "part_ok p" and ps': "list_all part_ok ps'"
    by (cases ps) (auto simp: word_ok_def)
  have "read_loop Between qd e [] (word_text ps @ rest) =
        read_loop Between qd e [] (part_text p @ (word_text ps' @ rest))"
    by (simp add: ps word_text_def)
  also have "\<dots> = read_loop InWord (qd \<or> is_quoted p) e (part_value p) (word_text ps' @ rest)"
    by (rule read_part_between [OF p])
  also have "\<dots> = read_loop InWord ((qd \<or> is_quoted p) \<or> list_ex is_quoted ps') e
                      (part_value p @ word_value ps') rest"
    by (rule read_parts_word [OF ps'])
  finally show ?thesis by (simp add: ps word_value_def)
qed

lemma word_visible: "word_ok ps \<Longrightarrow> word_value ps \<noteq> [] \<or> list_ex is_quoted ps"
proof -
  assume "word_ok ps"
  then obtain p ps' where ps: "ps = p # ps'"
    by (cases ps) (auto simp: word_ok_def)
  show ?thesis
    by (cases p) (simp_all add: ps word_value_def)
qed

lemma read_blank:
  "blank s \<Longrightarrow> read_loop Between False e [] (s @ rest) = read_loop Between False e [] rest"
  by (induction s) (simp_all add: blank_def blank_char_iff)

lemma read_token_word_sep:
  assumes "blank lead" and "word_ok ps" and "blank_char c"
  shows "read_token Between (lead @ word_text ps @ c # rest) =
           (Inr (Some (word_value ps)), Between, rest)"
proof -
  have "read_token Between (lead @ word_text ps @ c # rest) =
        read_loop Between False Between [] (word_text ps @ c # rest)"
    by (simp add: read_token_def read_blank [OF assms(1)])
  also have "\<dots> = read_loop InWord (list_ex is_quoted ps) Between (word_value ps) (c # rest)"
    using read_word_between [OF assms(2), of False] by simp
  also have "\<dots> = (Inr (Some (word_value ps)), Between, rest)"
    using word_visible [OF assms(2)] assms(3) by (auto simp: finish_def blank_char_iff)
  finally show ?thesis .
qed

lemma read_token_word_end:
  assumes "blank lead" and "word_ok ps"
  shows "read_token Between (lead @ word_text ps) = (Inr (Some (word_value ps)), AtEOF, [])"
proof -
  have "read_token Between (lead @ word_text ps) =
        read_loop Between False Between [] (word_text ps)"
    by (simp add: read_token_def read_blank [OF assms(1)])
  also have "\<dots> = read_loop InWord (list_ex is_quoted ps) Between (word_value ps) []"
    using read_word_between [OF assms(2), where qd = False and e = Between and rest = "[]"]
    by simp
  also have "\<dots> = (Inr (Some (word_value ps)), AtEOF, [])"
    using word_visible [OF assms(2)] by (auto simp: finish_def)
  finally show ?thesis .
qed

lemma shlex_tokens_blank: "blank s \<Longrightarrow> shlex_tokens Between s = Inr []"
proof -
  assume "blank s"
  from read_blank [OF this, of Between "[]"]
  have "read_token Between s = (Inr None, AtEOF, [])"
    by (simp add: read_token_def finish_def)
  then show ?thesis
    by (subst shlex_tokens.simps) simp
qed

lemma shlex_tokens_eof: "shlex_tokens AtEOF [] = Inr []"
  by (subst shlex_tokens.simps) (simp add: read_token_def finish_def)

lemma shlex_tokens_command:
  "command_ok items \<Longrightarrow> blank lead \<Longrightarrow>
     shlex_tokens Between (lead @ command_text items) = Inr (map (\<lambda>(ps, sep). word_value ps) items)"
proof (induction items arbitrary: lead rule: command_ok.induct)
  case 1
  then show ?case by (simp add: command_text_def shlex_tokens_blank)
next
  case (2 ps sep)
  then have w: "word_ok ps" and b: "blank sep" by simp_all
  show ?case
  proof (cases sep)
    case Nil
    have "read_token Between (lead @ word_text ps) = (Inr (Some (word_value ps)), AtEOF, [])"
      by (rule read_token_word_end [OF "2.prems"(2) w])
    then show ?thesis
      by (subst shlex_tokens.simps) (simp add: command_text_def Nil shlex_tokens_eof)
  next
    case (Cons c sep')
    with b have c: "blank_char c" and b': "blank sep'" by (simp_all add: blank_def)
    have "read_token Between (lead @ word_text ps @ c # sep') =
            (Inr (Some (word_value ps)), Between, sep')"
      by (rule read_token_word_sep [OF "2.prems"(2) w c])
    then show ?thesis
      by (subst shlex_tokens.simps) (simp add: command_text_def Cons shlex_tokens_blank [OF b'])
  qed
next
  case (3 ps sep x rest)
  then have w: "word_ok ps" and b: "blank sep" and ne: "sep \<noteq> []" and ok: "command_ok (x # rest)"
    by simp_all
  from ne obtain c sep' where sep: "sep = c # sep'" by (cases sep) auto
  with b have c: "blank_char c" and b': "blank sep'" by (simp_all add: blank_def)
  have rt: "read_token Between (lead @ word_text ps @ c # (sep' @ command_text (x # rest))) =
            (Inr (Some (word_value ps)), Between, sep' @ command_text (x # rest))"
    by (rule read_token_word_sep [OF "3.prems"(2) w c])
  have ih: "shlex_tokens Between (sep' @ command_text (x # rest)) =
            Inr (map (\<lambda>(ps, sep). word_value ps) (x # rest))"
    by (rule "3.IH" [OF ok b'])
  have tx: "lead @ command_text ((ps, sep) # x # rest) =
            lead @ word_text ps @ c # (sep' @ command_text (x # rest))"
    by (simp add: command_text_def sep)
  show ?case
    unfolding tx by (subst shlex_tokens.simps) (simp add: rt ih)
qed


text \<open>A command line that ends inside a quoted segment or on a backslash.\<close>

lemma read_squoted_open:
  "sq \<notin> set b \<Longrightarrow>
     fst (read_loop (InQuote sq) qd e tok b) = Inl (ValueError ''No closing quotation'')"
  by (induction b arbitrary: tok qd) (auto simp: quote_facts)

lemma read_dquoted_open:
  "list_all item_ok its \<Longrightarrow>
     fst (read_loop (InQuote dq) qd e tok (concat (map item_text its))) =
       Inl (ValueError ''No closing quotation'') \<and>
     fst (read_loop (InQuote dq) qd e tok (concat (map item_text its) @ [backslash])) =
       Inl (ValueError ''No escaped character'')"
proof (induction its arbitrary: tok qd e)
  case Nil
  show ?case by (simp add: quote_facts)
next
  case (Cons it its)
  then have ok: "item_ok it" and oks: "list_all item_ok its" by simp_all
  show ?case
  proof (cases it)
    case (DChar c)
    with ok show ?thesis
      by (simp add: Cons.IH [OF oks] quote_facts)
  next
    case (DEsc c)
    show ?thesis
      by (simp add: DEsc Cons.IH [OF oks] quote_facts)
  qed
qed

lemma read_tail:
  assumes "tail_ok t" and "st = InWord \<or> st = Between"
  shows "fst (read_loop st qd e tok (tail_text t)) = Inl (tail_error t)"
proof (cases t)
  case (OpenS b)
  with assms show ?thesis by (auto simp: quote_facts read_squoted_open)
next
  case (OpenD its)
  with assms show ?thesis by (auto simp: quote_facts read_dquoted_open)
next
  case Dangling
  with assms show ?thesis by (auto simp: quote_facts)
next
  case (DanglingD its)
  with assms show ?thesis by (auto simp: quote_facts read_dquoted_open)
qed

lemma read_token_open:
  assumes "blank lead" and "list_all part_ok cur" and "tail_ok t"
  shows "fst (read_token Between (lead @ word_text cur @ tail_text t)) = Inl (tail_error t)"
proof (cases "cur = []")
  case True
  have "read_token Between (lead @ word_text cur @ tail_text t) =
        read_loop Between False Between [] (tail_text t)"
    by (simp add: read_token_def read_blank [OF assms(1)] True word_text_def)
  then show ?thesis
    by (simp add: read_tail [OF assms(3)])
next
  case False
  with assms(2) have w: "word_ok cur" by (simp add: word_ok_def)
  have "read_token Between (lead @ word_text cur @ tail_text t) =
        read_loop Between False Between [] (word_text cur @ tail_text t)"
    by (simp add: read_token_def read_blank [OF assms(1)])
  also have "\<dots> = read_loop InWord (list_ex is_quoted cur) Between (word_value cur) (tail_text t)"
    using read_word_between [OF w, of False] by simp
  finally show ?thesis
    by (simp add: read_tail [OF assms(3)])
qed

lemma shlex_tokens_open:
  "prefix_ok pre \<Longrightarrow> blank lead \<Longrightarrow> list_all part_ok cur \<Longrightarrow> tail_ok t \<Longrightarrow>
     shlex_tokens Between (lead @ command_text pre @ word_text cur @ tail_text t) =
       Inl (tail_error t)"
proof (induction pre arbitrary: lead)
  case Nil
  from read_token_open [OF Nil(2) Nil(3) Nil(4)]
  obtain st' rest' where
    "read_token Between (lead @ word_text cur @ tail_text t) = (Inl (tail_error t), st', rest')"
    by (cases "read_token Between (lead @ word_text cur @ tail_text t)") auto
  then show ?case
    by (subst shlex_tokens.simps) (simp add: command_text_def)
next
  case (Cons item pre)
  obtain ps sep where item: "item = (ps, sep)" by (cases item)
  with Cons.prems(1) have w: "word_ok ps" and ne: "sep \<noteq> []" and b: "blank sep"
    and ok: "prefix_ok pre"
    by (simp_all add: prefix_ok_def)
  from ne obtain c sep' where sep: "sep = c # sep'" by (cases sep) auto
  with b have c: "blank_char c" and b': "blank sep'" by (simp_all add: blank_def)
  let ?rest = "sep' @ command_text pre @ word_text cur @ tail_text t"
  have rt: "read_token Between (lead @ word_text ps @ c # ?rest) =
            (Inr (Some (word_value ps)), Between, ?rest)"
    by (rule read_token_word_sep [OF Cons.prems(2) w c])
  have ih: "shlex_tokens Between ?rest = Inl (tail_error t)"
    by (rule Cons.IH [OF ok b' Cons.prems(3) Cons.prems(4)])
  have tx: "lead @ command_text (item # pre) @ word_text cur @ tail_text t =
            lead @ word_text ps @ c # ?rest"
    by (simp add: command_text_def item sep)
  show ?case
    unfolding tx by (subst shlex_tokens.simps) (simp add: rt ih)
qed

text \<open>Every string is a command line of one of the two kinds.\<close>

lemma word_text_snoc: "word_text (cur @ [p]) = word_text cur @ part_text p"
  by (simp add: word_text_def)

lemma command_text_snoc:
  "command_text (pre @ [(ps, sep)]) = command_text pre @ word_text ps @ sep"
  by (simp add: command_text_def)

lemma prefix_ok_snoc:
  "prefix_ok (pre @ [(ps, sep)]) \<longleftrightarrow> prefix_ok pre \<and> word_ok ps \<and> sep \<noteq> [] \<and> blank sep"
  by (auto simp: prefix_ok_def)

lemma prefix_ok_command_ok: "prefix_ok pre \<Longrightarrow> command_ok pre"
  by (induction pre rule: command_ok.induct) (simp_all add: prefix_ok_def)

lemma prefix_ok_snoc_command_ok:
  "prefix_ok pre \<Longrightarrow> word_ok ps \<Longrightarrow> blank sep \<Longrightarrow> command_ok (pre @ [(ps, sep)])"
  by (induction pre rule: command_ok.induct) (simp_all add: prefix_ok_def)

lemma scan_shape:
  "\<exists>lead pre cur. blank lead \<and> prefix_ok pre \<and> list_all part_ok cur \<and>
     (s = lead @ command_text pre @ word_text cur \<or>
      (\<exists>t. tail_ok t \<and> s = lead @ command_text pre @ word_text cur @ tail_text t))"
  (is "?shape s")
proof (induction s rule: rev_induct)
  case Nil
  have "blank [] \<and> prefix_ok [] \<and> list_all part_ok [] \<and> [] = [] @ command_text [] @ word_text []"
    by (simp add: blank_def prefix_ok_def command_text_def word_text_def)
  then show ?case by blast
next
  case (snoc c s)
  have closedI: "?shape x"
    if "blank lead" "prefix_ok pre" "list_all part_ok cur"
       "x = lead @ command_text pre @ word_text cur" for x lead pre cur
    using that by blast
  have openI: "?shape x"
    if "blank lead" "prefix_ok pre" "list_all part_ok cur" "tail_ok t"
       "x = lead @ command_text pre @ word_text cur @ tail_text t" for x lead pre cur t
    using that by blast
  from snoc obtain lead pre cur where b: "blank lead" and p: "prefix_ok pre"
    and k: "list_all part_ok cur"
    and s: "s = lead @ command_text pre @ word_text cur \<or>
      (\<exists>t. tail_ok t \<and> s = lead @ command_text pre @ word_text cur @ tail_text t)"
    by blast
  from s show ?case
  proof
    assume eq: "s = lead @ command_text pre @ word_text cur"
    consider (blk) "blank_char c" | (sq) "c = sq" | (dq) "c = dq" | (bs) "c = backslash"
      | (plain) "plain_char c"
      by (auto simp: plain_char_def)
    then show ?thesis
    proof cases
      case blk
      show ?thesis
      proof (cases "cur = []")
        case False
        with k have w: "word_ok cur" by (simp add: word_ok_def)
        show ?thesis
        proof (rule closedI [where lead = lead and pre = "pre @ [(cur, [c])]" and cur = "[]"])
          show "prefix_ok (pre @ [(cur, [c])])"
            using p w blk by (simp add: prefix_ok_snoc blank_def)
          show "s @ [c] = lead @ command_text (pre @ [(cur, [c])]) @ word_text []"
            by (simp add: eq command_text_snoc word_text_def)
        qed (simp_all add: b)
      next
        case True
        show ?thesis
        proof (cases pre rule: rev_cases)
          case Nil
          show ?thesis
          proof (rule closedI [where lead = "lead @ [c]" and pre = "[]" and cur = "[]"])
            show "blank (lead @ [c])" using b blk by (simp add: blank_def)
            show "s @ [c] = (lead @ [c]) @ command_text [] @ word_text []"
              by (simp add: eq True Nil command_text_def word_text_def)
          qed (simp_all add: prefix_ok_def)
        next
          case (snoc pre0 item)
          obtain ps sep where item: "item = (ps, sep)" by (cases item)
          from p have p0: "prefix_ok pre0" and w: "word_ok ps" and bl: "blank sep"
            by (simp_all add: snoc item prefix_ok_snoc)
          show ?thesis
          proof (rule closedI [where lead = lead and pre = "pre0 @ [(ps, sep @ [c])]" and cur = "[]"])
            show "prefix_ok (pre0 @ [(ps, sep @ [c])])"
              using p0 w bl blk by (simp add: prefix_ok_snoc blank_def)
            show "s @ [c] = lead @ command_text (pre0 @ [(ps, sep @ [c])]) @ word_text []"
              by (simp add: eq True snoc item command_text_snoc word_text_def)
          qed (simp_all add: b)
        qed
      qed
    next
      case sq
      show ?thesis
        by (rule openI [where lead = lead and pre = pre and cur = cur and t = "OpenS []"])
           (simp_all add: b p k eq sq)
    next
      case dq
      show ?thesis
        by (rule openI [where lead = lead and pre = pre and cur = cur and t = "OpenD []"])
           (simp_all add: b p k eq dq)
    next
      case bs
      show ?thesis
        by (rule openI [where lead = lead and pre = pre and cur = cur and t = Dangling])
           (simp_all add: b p k eq bs)
    next
      case plain
      show ?thesis
        by (rule closedI [where lead = lead and pre = pre and cur = "cur @ [Bare c]"])
           (simp_all add: b p k eq plain word_text_snoc)
    qed
  next
    assume "\<exists>t. tail_ok t \<and> s = lead @ command_text pre @ word_text cur @ tail_text t"
    then obtain t where t: "tail_ok t"
      and eq: "s = lead @ command_text pre @ word_text cur @ tail_text t"
      by blast
    show ?thesis
    proof (cases t)
      case (OpenS body)
      show ?thesis
      proof (cases "c = sq")
        case True
        show ?thesis
          by (rule closedI [where lead = lead and pre = pre and cur = "cur @ [SQuoted body]"])
             (insert t, simp_all add: b p k eq OpenS True word_text_snoc)
      next
        case False
        show ?thesis
          by (rule openI [where lead = lead and pre = pre and cur = cur and t = "OpenS (body @ [c])"])
             (insert t False, simp_all add: b p k eq OpenS)
      qed
    next
      case (OpenD its)
      consider (close) "c = dq" | (bs) "c = backslash" | (other) "c \<noteq> dq" "c \<noteq> backslash"
        by blast
      then show ?thesis
      proof cases
        case close
        show ?thesis
          by (rule closedI [where lead = lead and pre = pre and cur = "cur @ [DQuoted its]"])
             (insert t, simp_all add: b p k eq OpenD close word_text_snoc)
      next
        case bs
        show ?thesis
          by (rule openI [where lead = lead and pre = pre and cur = cur and t = "DanglingD its"])
             (insert t, simp_all add: b p k eq OpenD bs)
      next
        case other
        show ?thesis
          by (rule openI [where lead = lead and pre = pre and cur = cur
                and t = "OpenD (its @ [DChar c])"])
             (insert t other, simp_all add: b p k eq OpenD)
      qed
    next
      case Dangling
      show ?thesis
        by (rule closedI [where lead = lead and pre = pre and cur = "cur @ [Esc c]"])
           (simp_all add: b p k eq Dangling word_text_snoc)
    next
      case (DanglingD its)
      show ?thesis
        by (rule openI [where lead = lead and pre = pre and cur = cur
              and t = "OpenD (its @ [DEsc c])"])
           (insert t, simp_all add: b p k eq DanglingD)
    qed
  qed
qed

lemma every_command_line:
  "(\<exists>lead items. blank lead \<and> command_ok items \<and> s = lead @ command_text items) \<or>
   (\<exists>lead pre cur t. blank lead \<and> prefix_ok pre \<and> list_all part_ok cur \<and> tail_ok t \<and>
      s = lead @ command_text pre @ word_text cur @ tail_text t)"
proof -
  from scan_shape [of s] obtain lead pre cur where b: "blank lead" and p: "prefix_ok pre"
    and k: "list_all part_ok cur"
    and s: "s = lead @ command_text pre @ word_text cur \<or>
      (\<exists>t. tail_ok t \<and> s = lead @ command_text pre @ word_text cur @ tail_text t)"
    by blast
  from s show ?thesis
  proof
    assume eq: "s = lead @ command_text pre @ word_text cur"
    show ?thesis
    proof (cases "cur = []")
      case True
      have "blank lead \<and> command_ok pre \<and> s = lead @ command_text pre"
        using b prefix_ok_command_ok [OF p] by (simp add: eq True word_text_def)
      then show ?thesis by blast
    next
      case False
      with k have w: "word_ok cur" by (simp add: word_ok_def)
      have "blank lead \<and> command_ok (pre @ [(cur, [])]) \<and>
            s = lead @ command_text (pre @ [(cur, [])])"
        using b prefix_ok_snoc_command_ok [OF p w, of "[]"]
        by (simp add: eq command_text_snoc blank_def)
      then show ?thesis by blast
    qed
  next
    assume "\<exists>t. tail_ok t \<and> s = lead @ command_text pre @ word_text cur @ tail_text t"
    with b p k show ?thesis by blast
  qed
qed

text \<open>
  C8, as amended. \<open>shlex.split\<close> on the command string of task 2. A command line made of words
  separated by blanks, after any leading blanks (for instance \<open>ls -l\<close>), is split into
  the tokens of its words, one token per word and in order: a quoted segment stays inside
  its token, with the blanks it holds and without its quotes, and a backslash outside
  single quotes makes the next character literal. A command line that ends inside a
  quoted segment or right after such a backslash raises \<open>ValueError\<close>
  (\<open>No closing quotation\<close>, \<open>No escaped character\<close>). Every string is of one of the two
  kinds. Task 2 does not catch the exception: it ends the run before anything is
  printed or forked.
\<close>

theorem shlex_split_words:
  "(blank lead \<and> command_ok items \<longrightarrow>
      shlex_split (lead @ command_text items) = Inr (map (\<lambda>(ps, sep). word_value ps) items)) \<and>
   (blank lead \<and> prefix_ok pre \<and> list_all part_ok cur \<and> tail_ok t \<longrightarrow>
      shlex_split (lead @ command_text pre @ word_text cur @ tail_text t) = Inl (tail_error t)) \<and>
   ((\<exists>lead items. blank lead \<and> command_ok items \<and> cmd = lead @ command_text items) \<or>
    (\<exists>lead pre cur t. blank lead \<and> prefix_ok pre \<and> list_all part_ok cur \<and> tail_ok t \<and>
       cmd = lead @ command_text pre @ word_text cur @ tail_text t)) \<and>
   (shlex_split cmd = Inl e \<longrightarrow> task2_exec_children n cmd ue w = (Uncaught e, w))"
proof (intro conjI impI)
  assume "blank lead \<and> command_ok items"
  then show "shlex_split (lead @ command_text items) = Inr (map (\<lambda>(ps, sep). word_value ps) items)"
    unfolding shlex_split_def by (simp add: shlex_tokens_command)
next
  assume "blank lead \<and> prefix_ok pre \<and> list_all part_ok cur \<and> tail_ok t"
  then show "shlex_split (lead @ command_text pre @ word_text cur @ tail_text t) = Inl (tail_error t)"
    unfolding shlex_split_def by (simp add: shlex_tokens_open)
next
  show "(\<exists>lead items. blank lead \<and> command_ok items \<and> cmd = lead @ command_text items) \<or>
    (\<exists>lead pre cur t. blank lead \<and> prefix_ok pre \<and> list_all part_ok cur \<and> tail_ok t \<and>
       cmd = lead @ command_text pre @ word_text cur @ tail_text t)"
    by (rule every_command_line)
next
  assume "shlex_split cmd = Inl e"
  then show "task2_exec_children n cmd ue w = (Uncaught e, w)"
    by (simp add: task2_exec_children_def)
qed

theorem shlex_split_words_witness:
  "blank [] \<and>
   command_ok [(map Bare ''echo'', '' ''),
               ([DQuoted (map DChar ''a b''), Bare CHR ''c''], [])] \<and>
   shlex_split (''echo '' @ [dq] @ ''a b'' @ [dq] @ ''c'') = Inr [''echo'', ''a bc''] \<and>
   command_ok [(map Bare ''ls'', '' ''), (map Bare ''-l'', [])] \<and>
   shlex_split ''ls -l'' = Inr [''ls'', ''-l''] \<and>
   prefix_ok [(map Bare ''echo'', '' '')] \<and> list_all part_ok [Bare CHR ''x''] \<and>
   tail_ok (OpenS ''a b'') \<and>
   shlex_split (''echo x'' @ [sq] @ ''a b'') = Inl (ValueError ''No closing quotation'') \<and>
   task2_exec_children 3 (''echo x'' @ [sq] @ ''a b'') True world0 =
     (Uncaught (ValueError ''No closing quotation''), world0)"
proof -
  let ?items = "[(map Bare ''echo'', '' ''), ([DQuoted (map DChar ''a b''), Bare CHR ''c''], [])]"
  let ?ls = "[(map Bare ''ls'', '' ''), (map Bare ''-l'', [])]"
  let ?pre = "[(map Bare ''echo'', '' '')]"
  let ?cmd = "''echo x'' @ [sq] @ ''a b''"
  have bl: "blank []" by (simp add: blank_def)
  have ok: "command_ok ?items"
    by (simp add: word_ok_def blank_def plain_char_def blank_char_def)
  have ls: "command_ok ?ls"
    by (simp add: word_ok_def blank_def plain_char_def blank_char_def)
  have pre: "prefix_ok ?pre"
    by (simp add: prefix_ok_def word_ok_def blank_def plain_char_def blank_char_def)
  have cur: "list_all part_ok [Bare CHR ''x'']"
    by (simp add: plain_char_def blank_char_def)
  have tl: "tail_ok (OpenS ''a b'')" by simp
  note t = shlex_split_words [where lead = "[]" and items = ?items and pre = ?pre
      and cur = "[Bare CHR ''x'']" and t = "OpenS ''a b''" and cmd = ?cmd
      and e = "ValueError ''No closing quotation''" and n = 3 and ue = True and w = world0]
  from t bl ok have a: "shlex_split (''echo '' @ [dq] @ ''a b'' @ [dq] @ ''c'') = Inr [''echo'', ''a bc'']"
    by (simp add: command_text_def word_text_def word_value_def)
  from shlex_split_words [where lead = "[]" and items = ?ls] bl ls
  have b: "shlex_split ''ls -l'' = Inr [''ls'', ''-l'']"
    by (simp add: command_text_def word_text_def word_value_def)
  from t bl pre cur tl have c: "shlex_split ?cmd = Inl (ValueError ''No closing quotation'')"
    by (simp add: command_text_def word_text_def)
  from t c have d: "task2_exec_children 3 ?cmd True world0 =
     (Uncaught (ValueError ''No closing quotation''), world0)"
    by simp
  show ?thesis
    by (intro conjI bl ok a ls b pre cur tl c d)
qed

text \<open>The claim as stated fails: a command line that ends inside a quoted segment or
  on a backslash is not split at all, and task 2 ends on the exception with nothing
  printed and no child forked.\<close>

theorem shlex_split_counterexample:
  "shlex_split (''ls '' @ [dq] @ ''abc'') = Inl (ValueError ''No closing quotation'') \<and>
   shlex_split (''ls '' @ [backslash]) = Inl (ValueError ''No escaped character'') \<and>
   task2_exec_children 3 (''ls '' @ [dq] @ ''abc'') True world0 =
     (Uncaught (ValueError ''No closing quotation''), world0)"
proof -
  have a: "shlex_split (''ls '' @ [dq] @ ''abc'') = Inl (ValueError ''No closing quotation'')"
    by code_simp
  have b: "shlex_split (''ls '' @ [backslash]) = Inl (ValueError ''No escaped character'')"
    by code_simp
  have c: "task2_exec_children 3 (''ls '' @ [dq] @ ''abc'') True world0 =
     (Uncaught (ValueError ''No closing quotation''), world0)"
    unfolding task2_exec_children_def a by simp
  show ?thesis by (intro conjI a b c)
qed

end
